theory Spec2Isabelle
  imports Main "HOL-Library.Product_Lexorder"
begin

section \<open>Cards\<close>

text \<open>
  The source keeps suits and ranks as one-character strings taken from the tables
  \<open>SUITS\<close> and \<open>RANKS\<close>; a \<open>Card\<close> can only be built from a rank that is a key of
  \<open>RANK_VALUES\<close>. The four suits and thirteen ranks are therefore datatypes here, and
  \<open>RANK_VALUES\<close> is the table \<open>{rank: i for i, rank in enumerate(RANKS, 2)}\<close>.
\<close>

datatype suit = Spades | Hearts | Diamonds | Clubs

datatype rank = R2 | R3 | R4 | R5 | R6 | R7 | R8 | R9 | RT | RJ | RQ | RK | RA

definition RANKS :: "rank list" where
  "RANKS = [R2, R3, R4, R5, R6, R7, R8, R9, RT, RJ, RQ, RK, RA]"

fun RANK_VALUES :: "rank \<Rightarrow> int" where
  "RANK_VALUES R2 = 2"
| "RANK_VALUES R3 = 3"
| "RANK_VALUES R4 = 4"
| "RANK_VALUES R5 = 5"
| "RANK_VALUES R6 = 6"
| "RANK_VALUES R7 = 7"
| "RANK_VALUES R8 = 8"
| "RANK_VALUES R9 = 9"
| "RANK_VALUES RT = 10"
| "RANK_VALUES RJ = 11"
| "RANK_VALUES RQ = 12"
| "RANK_VALUES RK = 13"
| "RANK_VALUES RA = 14"

record card =
  suit :: suit
  rank :: rank

text \<open>The field \<open>value\<close> of a card is set once, in the constructor, from its rank.\<close>

definition card_value :: "card \<Rightarrow> int" where
  "card_value c = RANK_VALUES (rank c)"

definition Card :: "suit \<Rightarrow> rank \<Rightarrow> card" where
  "Card s r = \<lparr>suit = s, rank = r\<rparr>"

text \<open>The exceptions the modelled code can raise.\<close>

datatype error = IndexError | AttributeError | ZeroDivisionError

section \<open>Python's sorting and counting\<close>

text \<open>
  \<open>sorted\<close> and \<open>list.sort\<close> are stable; with \<open>reverse=True\<close> the result is
  descending and elements with equal keys still keep their original order.
\<close>

definition sorted_py :: "('a \<Rightarrow> 'k::linorder) \<Rightarrow> bool \<Rightarrow> 'a list \<Rightarrow> 'a list" where
  "sorted_py key reverse xs =
     (if reverse then rev (sort_key key (rev xs)) else sort_key key xs)"

text \<open>
  A \<open>Counter\<close> is a dict: its items come in the order in which the keys were first seen.
\<close>

fun counter_add :: "'a \<Rightarrow> ('a \<times> int) list \<Rightarrow> ('a \<times> int) list" where
  "counter_add x [] = [(x, 1)]"
| "counter_add x ((k, c) # m) =
     (if k = x then (k, c + 1) # m else (k, c) # counter_add x m)"

definition Counter :: "'a list \<Rightarrow> ('a \<times> int) list" where
  "Counter xs = foldl (\<lambda>m x. counter_add x m) [] xs"

section \<open>Hand evaluation\<close>

text \<open>
  \<open>all(values[i] - 1 == values[i+1] for i in range(4))\<close>: the generator stops at the
  first index that fails the test, and reading past the end of the list raises.
\<close>

fun all_consecutive :: "int list \<Rightarrow> nat list \<Rightarrow> error + bool" where
  "all_consecutive values [] = Inr True"
| "all_consecutive values (i # rest) =
     (if i + 1 < length values
      then (if values ! i - 1 = values ! (i + 1) then all_consecutive values rest
            else Inr False)
      else Inl IndexError)"

definition wheel_ranks :: "rank set" where
  "wheel_ranks = {RA, R2, R3, R4, R5}"

text \<open>
  \<open>_calculate_hand_rank\<close>. A card dealt from an exhausted deck is \<open>None\<close>; the first
  sort reads \<open>card.value\<close> of every element and so raises on it.
\<close>

definition calculate_hand_rank :: "card option list \<Rightarrow> error + (int \<times> card list)" where
  "calculate_hand_rank hand0 =
     (if None \<in> set hand0 then Inl AttributeError
      else
        let hand = sorted_py card_value True (map the hand0);
            values = map card_value hand;
            ranks = map rank hand;
            suits = map suit hand;
            is_flush = (card (set suits) = 1)
        in case all_consecutive values [0..<4] of
             Inl e \<Rightarrow> Inl e
           | Inr consecutive \<Rightarrow>
               let is_straight = (consecutive \<or> set ranks = wheel_ranks);
                   hand = (if is_straight \<and> set ranks = wheel_ranks
                           then sorted_py (\<lambda>c. (card_value c \<noteq> 14, card_value c)) False hand
                           else hand)
               in if is_straight \<and> is_flush
                  then (case values of
                          [] \<Rightarrow> Inl IndexError
                        | v0 # _ \<Rightarrow> Inr (if v0 = 14 then 10 else 9, hand))
                  else
                    let counts = Counter ranks;
                        counts_vals = sorted_py (\<lambda>c. c) True (map snd counts)
                    in (case counts_vals of
                         [] \<Rightarrow> Inl IndexError
                       | c0 # _ \<Rightarrow>
                           if c0 = 4
                           then (case filter (\<lambda>(r, c). c = 4) counts of
                                   [] \<Rightarrow> Inl IndexError
                                 | (four_rank, _) # _ \<Rightarrow>
                                     Inr (8, sorted_py (\<lambda>c. (rank c \<noteq> four_rank, card_value c))
                                               True hand))
                           else if counts_vals = [3, 2] then Inr (7, hand)
                           else if is_flush then Inr (6, hand)
                           else if is_straight then Inr (5, hand)
                           else if c0 = 3
                           then (case filter (\<lambda>(r, c). c = 3) counts of
                                   [] \<Rightarrow> Inl IndexError
                                 | (three_rank, _) # _ \<Rightarrow>
                                     Inr (4, sorted_py (\<lambda>c. (rank c \<noteq> three_rank, card_value c))
                                               True hand))
                           else if counts_vals = [2, 2, 1]
                           then (let pair_ranks = map fst (filter (\<lambda>(r, c). c = 2) counts)
                                 in Inr (3, sorted_py
                                              (\<lambda>c. (rank c \<notin> set pair_ranks, card_value c))
                                              True hand))
                           else if c0 = 2
                           then (case filter (\<lambda>(r, c). c = 2) counts of
                                   [] \<Rightarrow> Inl IndexError
                                 | (pair_rank, _) # _ \<Rightarrow>
                                     Inr (2, sorted_py (\<lambda>c. (rank c \<noteq> pair_rank, card_value c))
                                               True hand))
                           else Inr (1, hand)))"

text \<open>\<open>_compare_hands\<close>: the first position where the values differ decides.\<close>

fun compare_hands :: "card list \<Rightarrow> card list \<Rightarrow> int" where
  "compare_hands (c1 # hand1) (c2 # hand2) =
     (if card_value c1 > card_value c2 then 1
      else if card_value c1 < card_value c2 then - 1
      else compare_hands hand1 hand2)"
| "compare_hands _ _ = 0"

text \<open>\<open>itertools.combinations\<close>: the sublists of a given length, in lexicographic order
  of the positions chosen.\<close>

fun combinations :: "'a list \<Rightarrow> nat \<Rightarrow> 'a list list" where
  "combinations xs 0 = [[]]"
| "combinations [] (Suc k) = []"
| "combinations (x # xs) (Suc k) =
     map (\<lambda>c. x # c) (combinations xs k) @ combinations xs (Suc k)"

definition HAND_NAMES :: "int \<rightharpoonup> string" where
  "HAND_NAMES =
     [10 \<mapsto> ''Royal Flush'', 9 \<mapsto> ''Straight Flush'', 8 \<mapsto> ''Four of a Kind'',
      7 \<mapsto> ''Full House'', 6 \<mapsto> ''Flush'', 5 \<mapsto> ''Straight'',
      4 \<mapsto> ''Three of a Kind'', 3 \<mapsto> ''Two Pair'', 2 \<mapsto> ''One Pair'',
      1 \<mapsto> ''High Card'']"

text \<open>The loop of \<open>evaluate_hand\<close> over the combinations, carrying the best rank and the
  best cards found so far.\<close>

fun evaluate_loop ::
  "card option list list \<Rightarrow> int \<Rightarrow> card list \<Rightarrow> error + (int \<times> card list)" where
  "evaluate_loop [] best_rank best_hand_cards = Inr (best_rank, best_hand_cards)"
| "evaluate_loop (combo # rest) best_rank best_hand_cards =
     (case calculate_hand_rank combo of
        Inl e \<Rightarrow> Inl e
      | Inr (rank_val, hand_cards) \<Rightarrow>
          if rank_val > best_rank then evaluate_loop rest rank_val hand_cards
          else if rank_val = best_rank \<and> compare_hands hand_cards best_hand_cards > 0
          then evaluate_loop rest best_rank hand_cards
          else evaluate_loop rest best_rank best_hand_cards)"

definition evaluate_hand :: "card option list \<Rightarrow> error + (int \<times> card list \<times> string)" where
  "evaluate_hand hand =
     (case evaluate_loop (combinations hand 5) (- 1) [] of
        Inl e \<Rightarrow> Inl e
      | Inr (best_rank, best_hand_cards) \<Rightarrow>
          Inr (best_rank, best_hand_cards,
               (case HAND_NAMES best_rank of Some n \<Rightarrow> n | None \<Rightarrow> ''Unknown'')))"

section \<open>Players and the table\<close>

text \<open>
  A hand holds what \<open>Deck.deal\<close> returned, which is \<open>None\<close> once the deck is empty. The
  attribute \<open>hand_result\<close> exists only after a showdown has evaluated the player.
\<close>

record player =
  sid :: "string option"
  name :: string
  chips :: int
  is_bot :: bool
  hand :: "card option list"
  bet :: int
  in_hand :: bool
  is_all_in :: bool
  status :: string
  hand_result :: "(int \<times> card list \<times> string) option"

definition reset_for_hand :: "player \<Rightarrow> player" where
  "reset_for_hand p =
     p\<lparr>hand := [], bet := 0, in_hand := True, is_all_in := False, status := ''''\<rparr>"

text \<open>The constructor of \<open>Player\<close>.\<close>

definition Player :: "string option \<Rightarrow> string \<Rightarrow> int \<Rightarrow> bool \<Rightarrow> player" where
  "Player sid0 name0 chips0 is_bot0 =
     reset_for_hand
       \<lparr>sid = sid0, name = name0, chips = chips0, is_bot = is_bot0, hand = [], bet = 0,
        in_hand = True, is_all_in = False, status = '''', hand_result = None\<rparr>"

text \<open>The deck is \<open>None\<close> until the first hand creates one; otherwise it is the list
  \<open>Deck.cards\<close>, dealt from its end.\<close>

record game =
  players :: "player list"
  deck :: "card list option"
  community_cards :: "card option list"
  pot :: int
  dealer_pos :: int
  current_player_index :: int
  current_bet :: int
  last_raise :: int
  stage :: string
  small_blind :: int
  big_blind :: int
  is_running :: bool

text \<open>The table as the constructor of \<open>Game\<close> leaves it.\<close>

definition Game :: game where
  "Game =
     \<lparr>players = [], deck = None, community_cards = [], pot = 0, dealer_pos = - 1,
      current_player_index = 0, current_bet = 0, last_raise = 0, stage = ''Idle'',
      small_blind = 10, big_blind = 20, is_running = False\<rparr>"

definition add_player :: "game \<Rightarrow> string option \<Rightarrow> string \<Rightarrow> int \<Rightarrow> bool \<Rightarrow> game" where
  "add_player s sid0 name0 chips0 is_bot0 =
     (if length (players s) < 4
      then s\<lparr>players := players s @ [Player sid0 name0 chips0 is_bot0]\<rparr>
      else s)"

definition deal :: "card list \<Rightarrow> card option \<times> card list" where
  "deal cards = (if cards = [] then (None, []) else (Some (last cards), butlast cards))"

fun deal_n :: "nat \<Rightarrow> card list \<Rightarrow> card option list \<times> card list" where
  "deal_n 0 cards = ([], cards)"
| "deal_n (Suc n) cards =
     (let (c, cards1) = deal cards; (cs, cards2) = deal_n n cards1 in (c # cs, cards2))"

text \<open>Indexing a Python list: a negative index counts from the end, anything outside
  raises.\<close>

definition py_pos :: "'a list \<Rightarrow> int \<Rightarrow> nat option" where
  "py_pos xs i =
     (let n = int (length xs); j = (if i < 0 then n + i else i)
      in if 0 \<le> j \<and> j < n then Some (nat j) else None)"

definition py_nth :: "'a list \<Rightarrow> int \<Rightarrow> error + 'a" where
  "py_nth xs i = (case py_pos xs i of None \<Rightarrow> Inl IndexError | Some j \<Rightarrow> Inr (xs ! j))"

subsection \<open>The payload of a state update\<close>

text \<open>
  \<open>Card.to_dict\<close> gives a dict with the keys suit, rank and color; a hidden card is the
  empty dict \<open>{}\<close>.
\<close>

datatype card_dict = CardDict suit rank string | EmptyDict

record player_dict =
  d_name :: string
  d_chips :: int
  d_isBot :: bool
  d_hand :: "card_dict list"
  d_bet :: int
  d_inHand :: bool
  d_status :: string

record state_dict =
  d_players :: "player_dict list"
  d_communityCards :: "card_dict list"
  d_pot :: int
  d_dealerPos :: int
  d_currentPlayerIndex :: int
  d_stage :: string

definition card_to_dict :: "card \<Rightarrow> card_dict" where
  "card_to_dict c =
     CardDict (suit c) (rank c) (if suit c \<in> set [Hearts, Diamonds] then ''red'' else ''black'')"

text \<open>\<open>[c.to_dict() for c in cards]\<close>, raising on a \<open>None\<close> among the cards.\<close>

fun cards_to_dicts :: "card option list \<Rightarrow> error + card_dict list" where
  "cards_to_dicts [] = Inr []"
| "cards_to_dicts (None # cs) = Inl AttributeError"
| "cards_to_dicts (Some c # cs) =
     (case cards_to_dicts cs of Inl e \<Rightarrow> Inl e | Inr ds \<Rightarrow> Inr (card_to_dict c # ds))"

definition to_dict :: "player \<Rightarrow> bool \<Rightarrow> error + player_dict" where
  "to_dict p show_cards =
     (case (if show_cards \<or> \<not> is_bot p then cards_to_dicts (hand p)
            else Inr [EmptyDict, EmptyDict]) of
        Inl e \<Rightarrow> Inl e
      | Inr h \<Rightarrow>
          Inr \<lparr>d_name = name p, d_chips = chips p, d_isBot = is_bot p, d_hand = h,
               d_bet = bet p, d_inHand = in_hand p, d_status = status p\<rparr>)"

fun players_to_dicts :: "player list \<Rightarrow> bool \<Rightarrow> error + player_dict list" where
  "players_to_dicts [] show_all_cards = Inr []"
| "players_to_dicts (p # ps) show_all_cards =
     (case to_dict p (show_all_cards \<or> \<not> in_hand p) of
        Inl e \<Rightarrow> Inl e
      | Inr d \<Rightarrow>
          (case players_to_dicts ps show_all_cards of
             Inl e \<Rightarrow> Inl e
           | Inr ds \<Rightarrow> Inr (d # ds)))"

definition get_state :: "game \<Rightarrow> bool \<Rightarrow> error + state_dict" where
  "get_state s show_all_cards =
     (case players_to_dicts (players s) show_all_cards of
        Inl e \<Rightarrow> Inl e
      | Inr ps \<Rightarrow>
          (case cards_to_dicts (community_cards s) of
             Inl e \<Rightarrow> Inl e
           | Inr cc \<Rightarrow>
               Inr \<lparr>d_players = ps, d_communityCards = cc, d_pot = pot s,
                    d_dealerPos = dealer_pos s,
                    d_currentPlayerIndex = current_player_index s, d_stage = stage s\<rparr>))"

text \<open>
  \<open>emit_game_state\<close> builds the payload and hands it to the transport. Nothing of the
  table changes; what matters here is that building the payload can raise.
\<close>

definition emit_game_state :: "game \<Rightarrow> bool \<Rightarrow> error + unit" where
  "emit_game_state s show_all_cards =
     (case get_state s show_all_cards of Inl e \<Rightarrow> Inl e | Inr payload \<Rightarrow> Inr ())"

subsection \<open>Turn order\<close>

text \<open>
  The loop of \<open>get_next_active_player\<close>, with the number of iterations that remain. The
  modulus raises on an empty player list.
\<close>

fun next_active_scan :: "player list \<Rightarrow> int \<Rightarrow> nat \<Rightarrow> error + int option" where
  "next_active_scan ps i 0 = Inr None"
| "next_active_scan ps i (Suc k) =
     (if length ps = 0 then Inl ZeroDivisionError
      else
        let i' = (i + 1) mod int (length ps)
        in if in_hand (ps ! nat i') \<and> \<not> is_all_in (ps ! nat i') then Inr (Some i')
           else next_active_scan ps i' k)"

definition get_next_active_player :: "game \<Rightarrow> int \<Rightarrow> error + int" where
  "get_next_active_player s start_index =
     (case next_active_scan (players s) start_index (length (players s) + 1) of
        Inl e \<Rightarrow> Inl e
      | Inr (Some i) \<Rightarrow> Inr i
      | Inr None \<Rightarrow> Inr start_index)"

subsection \<open>Actions\<close>

text \<open>
  An action message carries the name of the action and, optionally, an amount; a missing
  amount is read as 0. Any other name falls through every branch. The action ends by
  sending the state of the table.
\<close>

record action_data =
  action :: string
  amount :: "int option"

definition update_player :: "game \<Rightarrow> nat \<Rightarrow> (player \<Rightarrow> player) \<Rightarrow> game" where
  "update_player s j f = s\<lparr>players := (players s)[j := f (players s ! j)]\<rparr>"

definition mark_all_in :: "player \<Rightarrow> player" where
  "mark_all_in p = (if chips p = 0 then p\<lparr>is_all_in := True, status := ''ALL-IN''\<rparr> else p)"

definition handle_player_action :: "game \<Rightarrow> int \<Rightarrow> action_data \<Rightarrow> error + (game \<times> bool)" where
  "handle_player_action s p_idx data =
     (case py_pos (players s) p_idx of
        None \<Rightarrow> Inl IndexError
      | Some j \<Rightarrow>
          let player = players s ! j;
              amount = (case amount data of None \<Rightarrow> 0 | Some a \<Rightarrow> a);
              to_call = current_bet s - bet player;
              (s1, is_raise) =
                (if action data = ''fold''
                 then (update_player s j (\<lambda>p. p\<lparr>in_hand := False, status := ''FOLD''\<rparr>), False)
                 else if action data = ''check'' then (s, False)
                 else if action data = ''call''
                 then (let call_amount = min to_call (chips player)
                       in (update_player s j
                             (\<lambda>p. p\<lparr>chips := chips p - call_amount, bet := bet p + call_amount\<rparr>),
                           False))
                 else if action data \<in> set [''bet'', ''raise'']
                 then (let total_bet = min amount (chips player + bet player);
                           additional = total_bet - bet player;
                           s' = update_player s j
                                  (\<lambda>p. p\<lparr>chips := chips p - additional, bet := bet p + additional\<rparr>);
                           new_bet = bet (players s' ! j)
                       in if new_bet > current_bet s'
                          then (s'\<lparr>last_raise := new_bet - current_bet s', current_bet := new_bet\<rparr>,
                                True)
                          else (s', False))
                 else (s, False));
              s2 = update_player s1 j mark_all_in
          in (case emit_game_state s2 False of
                Inl e \<Rightarrow> Inl e
              | Inr _ \<Rightarrow> Inr (s2, is_raise)))"

text \<open>\<open>collect_bets\<close> walks the players, adding each bet to the pot and clearing it.\<close>

fun collect_loop :: "player list \<Rightarrow> int \<Rightarrow> player list \<times> int" where
  "collect_loop [] pot_acc = ([], pot_acc)"
| "collect_loop (p # ps) pot_acc =
     (let (ps', pot') = collect_loop ps (pot_acc + bet p) in (p\<lparr>bet := 0\<rparr> # ps', pot'))"

definition collect_bets :: "game \<Rightarrow> game" where
  "collect_bets s =
     (let (ps, pot') = collect_loop (players s) (pot s) in s\<lparr>players := ps, pot := pot'\<rparr>)"

subsection \<open>Paying the pot\<close>

text \<open>The seats still contesting the pot, as positions in the player list.\<close>

definition contender_positions :: "player list \<Rightarrow> nat list" where
  "contender_positions ps = filter (\<lambda>i. in_hand (ps ! i)) [0..<length ps]"

definition award_pot_to_winner :: "game \<Rightarrow> error + game" where
  "award_pot_to_winner s =
     (let s' = (case contender_positions (players s) of
                  [w] \<Rightarrow> (update_player s w (\<lambda>p. p\<lparr>chips := chips p + pot s\<rparr>))\<lparr>pot := 0\<rparr>
                | _ \<Rightarrow> s)
      in case emit_game_state s' False of Inl e \<Rightarrow> Inl e | Inr _ \<Rightarrow> Inr s')"

text \<open>
  The loop of \<open>showdown\<close> over the contenders. It stores each contender's evaluation in
  \<open>hand_result\<close> and keeps the list of winners (positions in the player list) with the
  best rank so far; \<open>winners[0]\<close> raises while that list is empty.
\<close>

fun showdown_loop ::
  "card option list \<Rightarrow> nat list \<Rightarrow> player list \<Rightarrow> nat list \<Rightarrow> int
     \<Rightarrow> error + (player list \<times> nat list)" where
  "showdown_loop cc [] ps winners best_rank = Inr (ps, winners)"
| "showdown_loop cc (i # rest) ps winners best_rank =
     (case evaluate_hand (hand (ps ! i) @ cc) of
        Inl e \<Rightarrow> Inl e
      | Inr (rank_val, cards, hname) \<Rightarrow>
          let ps1 = ps[i := (ps ! i)\<lparr>hand_result := Some (rank_val, cards, hname)\<rparr>]
          in if rank_val > best_rank then showdown_loop cc rest ps1 [i] rank_val
             else if rank_val = best_rank
             then (case winners of
                     [] \<Rightarrow> Inl IndexError
                   | w0 # _ \<Rightarrow>
                       (case hand_result (ps1 ! w0) of
                          None \<Rightarrow> Inl AttributeError
                        | Some (_, wcards, _) \<Rightarrow>
                            if compare_hands cards wcards = 1
                            then showdown_loop cc rest ps1 [i] best_rank
                            else if compare_hands cards wcards = 0
                            then showdown_loop cc rest ps1 (winners @ [i]) best_rank
                            else showdown_loop cc rest ps1 winners best_rank))
             else showdown_loop cc rest ps1 winners best_rank)"

fun pay_winners :: "player list \<Rightarrow> nat list \<Rightarrow> int \<Rightarrow> player list" where
  "pay_winners ps [] winnings = ps"
| "pay_winners ps (w # ws) winnings =
     pay_winners (ps[w := (ps ! w)\<lparr>chips := chips (ps ! w) + winnings\<rparr>]) ws winnings"

text \<open>\<open>showdown\<close> sends the table with every card shown before it looks at the
  contenders, and sends it again once the winners are paid.\<close>

definition showdown :: "game \<Rightarrow> error + game" where
  "showdown s =
     (case emit_game_state s True of
        Inl e \<Rightarrow> Inl e
      | Inr _ \<Rightarrow>
          let contenders = contender_positions (players s)
          in if contenders = [] \<or> length contenders < 2 then award_pot_to_winner s
             else (case showdown_loop (community_cards s) contenders (players s) [] (- 1) of
                     Inl e \<Rightarrow> Inl e
                   | Inr (ps, winners) \<Rightarrow>
                       if winners = [] then Inl ZeroDivisionError
                       else
                         let winnings = pot s div int (length winners);
                             s' = s\<lparr>players := pay_winners ps winners winnings, pot := 0\<rparr>
                         in (case emit_game_state s' False of
                               Inl e \<Rightarrow> Inl e
                             | Inr _ \<Rightarrow> Inr s')))"

subsection \<open>Blinds\<close>

definition post_blinds :: "game \<Rightarrow> error + game" where
  "post_blinds s =
     (case get_next_active_player s (dealer_pos s) of
        Inl e \<Rightarrow> Inl e
      | Inr sb_pos \<Rightarrow>
          (case get_next_active_player s sb_pos of
             Inl e \<Rightarrow> Inl e
           | Inr bb_pos \<Rightarrow>
               (case py_pos (players s) sb_pos of
                  None \<Rightarrow> Inl IndexError
                | Some sb \<Rightarrow>
                    let sb_amount = min (small_blind s) (chips (players s ! sb));
                        s1 = update_player s sb
                               (\<lambda>p. p\<lparr>chips := chips p - sb_amount, bet := sb_amount\<rparr>)
                    in (case py_pos (players s1) bb_pos of
                          None \<Rightarrow> Inl IndexError
                        | Some bb \<Rightarrow>
                            let bb_amount = min (big_blind s1) (chips (players s1 ! bb));
                                s2 = update_player s1 bb
                                       (\<lambda>p. p\<lparr>chips := chips p - bb_amount, bet := bb_amount\<rparr>)
                            in (case get_next_active_player s2 bb_pos of
                                  Inl e \<Rightarrow> Inl e
                                | Inr i \<Rightarrow>
                                    Inr (s2\<lparr>current_bet := big_blind s2,
                                            last_raise := big_blind s2,
                                            current_player_index := i\<rparr>))))))"

subsection \<open>The betting round\<close>

text \<open>
  The decisions of the seats (a bot's policy, or the message awaited from the human seat)
  are an input of the round: the \<open>k\<close>-th action solicited is \<open>acts k\<close>, and the round
  reports how many it solicited. Log lines and pauses do not touch the table and cannot
  raise; they are left out.

  The part of \<open>betting_round\<close> before the closure test: the resets of a round after the
  pre-flop, then the burn and the community cards.
\<close>

definition round_setup :: "string \<Rightarrow> int \<Rightarrow> game \<Rightarrow> error + game" where
  "round_setup stage_name cards_to_deal s0 =
     (let s = s0\<lparr>stage := stage_name\<rparr>
      in case (if stage_name \<noteq> ''Pre-Flop''
               then (let s1 = s\<lparr>current_bet := 0, last_raise := big_blind s,
                                 players := map (\<lambda>p. p\<lparr>bet := 0\<rparr>) (players s)\<rparr>
                     in case get_next_active_player s1 (dealer_pos s1) of
                          Inl e \<Rightarrow> Inl e
                        | Inr i \<Rightarrow> Inr (s1\<lparr>current_player_index := i\<rparr>))
               else Inr s) of
           Inl e \<Rightarrow> Inl e
         | Inr s2 \<Rightarrow>
             if cards_to_deal > 0
             then (case deck s2 of
                     None \<Rightarrow> Inl AttributeError
                   | Some cards \<Rightarrow>
                       let (burn, cards1) = deal cards;
                           (dealt, cards2) = deal_n (nat cards_to_deal) cards1
                       in Inr (s2\<lparr>deck := Some cards2,
                                  community_cards := community_cards s2 @ dealt\<rparr>))
             else Inr s2)"

text \<open>
  The \<open>while True\<close> loop. It need not end (two seats may check for ever against an
  unmatched bet), so it runs on fuel: \<open>None\<close> says the fuel ran out before the loop
  left. \<open>players_in_hand\<close> is taken at the top of an iteration and its bets are read
  after the action. Before a seat is asked, the state of the table is sent; and a bot's
  policy starts by reading the value of each of its hole cards, which raises on a
  \<open>None\<close> among them, whatever it would then decide.
\<close>

definition bot_reads_hole_cards :: "player \<Rightarrow> error + unit" where
  "bot_reads_hole_cards p =
     (if is_bot p \<and> None \<in> set (hand p) then Inl AttributeError else Inr ())"

fun betting_loop ::
  "nat \<Rightarrow> (nat \<Rightarrow> action_data) \<Rightarrow> nat \<Rightarrow> int \<Rightarrow> game \<Rightarrow> (error + (game \<times> nat)) option" where
  "betting_loop 0 acts k action_starter_index s = None"
| "betting_loop (Suc fuel) acts k action_starter_index s =
     (let players_in_hand = contender_positions (players s)
      in if length players_in_hand \<le> 1 then Some (Inr (s, k))
         else
           (case py_nth (players s) (current_player_index s) of
              Inl e \<Rightarrow> Some (Inl e)
            | Inr player \<Rightarrow>
                if is_all_in player \<or> \<not> in_hand player
                then (case get_next_active_player s (current_player_index s) of
                        Inl e \<Rightarrow> Some (Inl e)
                      | Inr i \<Rightarrow>
                          if i = action_starter_index
                          then Some (Inr (s\<lparr>current_player_index := i\<rparr>, k))
                          else betting_loop fuel acts k action_starter_index
                                 (s\<lparr>current_player_index := i\<rparr>))
                else
                  (case emit_game_state s False of
                     Inl e \<Rightarrow> Some (Inl e)
                   | Inr _ \<Rightarrow>
                  (case bot_reads_hole_cards player of
                     Inl e \<Rightarrow> Some (Inl e)
                   | Inr _ \<Rightarrow>
                  (case handle_player_action s (current_player_index s) (acts k) of
                     Inl e \<Rightarrow> Some (Inl e)
                   | Inr (s1, is_raise) \<Rightarrow>
                       let starter = (if is_raise then current_player_index s1
                                      else action_starter_index)
                       in (case get_next_active_player s1 (current_player_index s1) of
                             Inl e \<Rightarrow> Some (Inl e)
                           | Inr i \<Rightarrow>
                               let s2 = s1\<lparr>current_player_index := i\<rparr>;
                                   highest_bet =
                                     Max (set (map (\<lambda>j. bet (players s2 ! j)) players_in_hand))
                               in if i = starter \<and>
                                     list_all (\<lambda>p. bet p = highest_bet \<or> \<not> in_hand p \<or> is_all_in p)
                                       (players s2)
                                  then Some (Inr (s2, Suc k))
                                  else betting_loop fuel acts (Suc k) starter s2))))))"

definition players_with_option :: "game \<Rightarrow> nat" where
  "players_with_option s = length (filter (\<lambda>p. in_hand p \<and> \<not> is_all_in p) (players s))"

definition players_left :: "game \<Rightarrow> nat" where
  "players_left s = length (filter in_hand (players s))"

text \<open>\<open>betting_round\<close> returns the table, the flag it reports, and the number of actions
  it solicited.\<close>

definition betting_round ::
  "nat \<Rightarrow> (nat \<Rightarrow> action_data) \<Rightarrow> string \<Rightarrow> int \<Rightarrow> game
     \<Rightarrow> (error + (game \<times> bool \<times> nat)) option" where
  "betting_round fuel acts stage_name cards_to_deal s0 =
     (case round_setup stage_name cards_to_deal s0 of
        Inl e \<Rightarrow> Some (Inl e)
      | Inr s \<Rightarrow>
          if players_with_option s < 2 \<and> current_bet s = 0
          then (let s' = collect_bets s in Some (Inr (s', players_left s' > 1, 0)))
          else
            (case betting_loop fuel acts 0 (current_player_index s) s of
               None \<Rightarrow> None
             | Some (Inl e) \<Rightarrow> Some (Inl e)
             | Some (Inr (s1, k)) \<Rightarrow>
                 let s' = collect_bets s1 in Some (Inr (s', players_left s' > 1, k))))"

section \<open>Concrete hands and tables\<close>

definition suited_wheel :: "card option list" where
  "suited_wheel =
     map Some [Card Spades RA, Card Spades R2, Card Spades R3, Card Spades R4, Card Spades R5]"

definition twos_full_of_aces :: "card option list" where
  "twos_full_of_aces =
     map Some [Card Spades R2, Card Hearts R2, Card Diamonds R2, Card Clubs RA, Card Spades RA]"

definition kings_full_of_queens :: "card option list" where
  "kings_full_of_queens =
     map Some [Card Spades RK, Card Hearts RK, Card Diamonds RK, Card Clubs RQ, Card Spades RQ]"

definition wheel :: "card option list" where
  "wheel =
     map Some [Card Spades RA, Card Hearts R2, Card Diamonds R3, Card Clubs R4, Card Spades R5]"

definition six_high_straight :: "card option list" where
  "six_high_straight =
     map Some [Card Spades R6, Card Hearts R2, Card Diamonds R3, Card Clubs R4, Card Spades R5]"

text \<open>The table as the first connection seats it, and a table in the middle of a hand
  where Bot Alice has folded.\<close>

definition seated_table :: game where
  "seated_table =
     add_player
       (add_player
          (add_player (add_player Game (Some ''sid1'') ''You'' 1000 False)
             None ''Bot Alice'' 1000 True)
          None ''Bot Bob'' 1000 True)
       None ''Bot Charlie'' 1000 True"

definition dealt_table :: game where
  "dealt_table =
     Game\<lparr>players :=
       [(Player (Some ''sid1'') ''You'' 1000 False)
          \<lparr>hand := [Some (Card Spades R7), Some (Card Spades R8)]\<rparr>,
        (Player None ''Bot Alice'' 1000 True)
          \<lparr>hand := [Some (Card Hearts RA), Some (Card Clubs RK)], in_hand := False,
           status := ''FOLD''\<rparr>,
        (Player None ''Bot Bob'' 980 True)
          \<lparr>hand := [Some (Card Diamonds R2), Some (Card Clubs R2)], bet := 20\<rparr>],
       current_bet := 20, last_raise := 20, stage := ''Pre-Flop''\<rparr>"

definition raise_to_5000 :: action_data where
  "raise_to_5000 = \<lparr>action = ''raise'', amount = Some 5000\<rparr>"

definition split_payload_hands :: "card_dict list list" where
  "split_payload_hands =
     [[CardDict Spades R2 ''black'', CardDict Hearts R3 ''red''], [EmptyDict, EmptyDict]]"

text \<open>A table where only the first seat can act: Bot Alice has folded, Bot Bob is all-in.\<close>

definition all_in_table :: game where
  "all_in_table =
     Game\<lparr>players :=
       [Player (Some ''sid1'') ''You'' 500 False,
        (Player None ''Bot Alice'' 1000 True)\<lparr>in_hand := False, status := ''FOLD''\<rparr>,
        (Player None ''Bot Bob'' 0 True)\<lparr>is_all_in := True, status := ''ALL-IN''\<rparr>],
       pot := 1500, dealer_pos := 0\<rparr>"

text \<open>Tables for the blinds: a short stack that alone can act, and two short stacks.\<close>

definition lone_short_stack :: game where
  "lone_short_stack =
     Game\<lparr>players :=
       [Player (Some ''sid1'') ''You'' 5 False,
        (Player None ''Bot Alice'' 1000 True)\<lparr>in_hand := False, status := ''FOLD''\<rparr>],
       dealer_pos := 0\<rparr>"

definition short_stacks :: game where
  "short_stacks =
     Game\<lparr>players := [Player (Some ''sid1'') ''You'' 15 False, Player None ''Bot Alice'' 5 True],
       dealer_pos := 0\<rparr>"

text \<open>The table with one seat able to act, before and after the flop is dealt.\<close>

definition flop_table :: game where
  "flop_table =
     all_in_table\<lparr>deck := Some [Card Spades R2, Card Hearts R9, Card Diamonds RJ,
                                 Card Clubs R4, Card Spades RK]\<rparr>"

definition flop_table_dealt :: game where
  "flop_table_dealt =
     flop_table\<lparr>stage := ''Flop'', last_raise := 20, deck := Some [Card Spades R2],
       community_cards := [Some (Card Clubs R4), Some (Card Diamonds RJ), Some (Card Hearts R9)]\<rparr>"

text \<open>A river where both players play the board, with a pot of 101.\<close>

definition board_high :: "int \<times> card list \<times> string" where
  "board_high =
     (1, [Card Spades RA, Card Hearts RK, Card Diamonds RQ, Card Clubs RJ, Card Spades R9],
      ''High Card'')"

definition split_table :: game where
  "split_table =
     Game\<lparr>players :=
       [(Player (Some ''sid1'') ''You'' 1000 False)
          \<lparr>hand := [Some (Card Spades R2), Some (Card Hearts R3)]\<rparr>,
        (Player None ''Bot Alice'' 1000 True)
          \<lparr>hand := [Some (Card Clubs R2), Some (Card Diamonds R3)]\<rparr>],
       deck := Some [],
       community_cards :=
         map Some [Card Spades RA, Card Hearts RK, Card Diamonds RQ, Card Clubs RJ,
                   Card Spades R9],
       pot := 101, dealer_pos := 0, stage := ''River''\<rparr>"

definition split_evaluated :: "player list" where
  "split_evaluated = map (\<lambda>p. p\<lparr>hand_result := Some board_high\<rparr>) (players split_table)"



text \<open>A pre-flop table with bets standing and no current bet, before and after they are
  collected.\<close>

definition walk_table :: game where
  "walk_table =
     Game\<lparr>players :=
       [(Player (Some ''sid1'') ''You'' 980 False)\<lparr>bet := 20\<rparr>,
        (Player None ''Bot Alice'' 990 True)\<lparr>bet := 10, in_hand := False, status := ''FOLD''\<rparr>],
       dealer_pos := 0, stage := ''Pre-Flop''\<rparr>"

definition walk_table_collected :: game where
  "walk_table_collected =
     Game\<lparr>players :=
       [Player (Some ''sid1'') ''You'' 980 False,
        (Player None ''Bot Alice'' 990 True)\<lparr>in_hand := False, status := ''FOLD''\<rparr>],
       pot := 30, dealer_pos := 0, stage := ''Pre-Flop''\<rparr>"

text \<open>The split table with a third seat that has folded holding a missing card.\<close>

definition torn_table :: game where
  "torn_table =
     split_table\<lparr>players := players split_table @
       [(Player None ''Bot Bob'' 1000 True)
          \<lparr>hand := [Some (Card Clubs R7), None], in_hand := False, status := ''FOLD''\<rparr>]\<rparr>"

section \<open>Notions the statements use\<close>

text \<open>A player's cards as they are sent when they are not hidden.\<close>

definition shown :: "player \<Rightarrow> card_dict list" where
  "shown p = map (\<lambda>c. card_to_dict (the c)) (hand p)"

text \<open>The test of \<open>get_next_active_player\<close> on a seat.\<close>

definition can_act :: "player \<Rightarrow> bool" where
  "can_act p = (in_hand p \<and> \<not> is_all_in p)"

section \<open>Collecting the bets\<close>

lemma collect_loop_eq:
  "collect_loop ps a = (map (\<lambda>p. p\<lparr>bet := 0\<rparr>) ps, a + sum_list (map bet ps))"
  by (induction ps arbitrary: a) (simp_all add: algebra_simps)

lemma collect_bets_eq:
  "collect_bets s =
     s\<lparr>players := map (\<lambda>p. p\<lparr>bet := 0\<rparr>) (players s),
       pot := pot s + sum_list (map bet (players s))\<rparr>"
  by (simp add: collect_bets_def collect_loop_eq)

lemma cleared_bets: "map (bet \<circ> (\<lambda>p. p\<lparr>bet := 0\<rparr>)) ps = replicate (length ps) 0"
  by (induction ps) simp_all

text \<open>
  C4. On every table, \<open>collect_bets\<close> changes nothing but the pot and the players' bets:
  every bet becomes 0 and the pot grows by the sum of the bets there were. So the pot plus
  the sum of the bets is the same before and after.
\<close>

theorem collect_bets_folds_bets_into_pot:
  "collect_bets s =
     s\<lparr>players := map (\<lambda>p. p\<lparr>bet := 0\<rparr>) (players s),
       pot := pot s + sum_list (map bet (players s))\<rparr>
   \<and> map bet (players (collect_bets s)) = replicate (length (players s)) 0
   \<and> pot (collect_bets s) + sum_list (map bet (players (collect_bets s)))
       = pot s + sum_list (map bet (players s))"
  by (simp add: collect_bets_eq cleared_bets sum_list_replicate)

section \<open>Hand ranks on concrete hands\<close>

text \<open>
  C1. The suited wheel A-2-3-4-5 is a straight and a flush. The category is chosen from
  \<open>values[0]\<close>, read from the hand as sorted before the ace was moved, so it is 14 and the
  hand gets category 10, the one named Royal Flush, not 9.
\<close>

theorem suited_wheel_is_ranked_royal:
  "calculate_hand_rank suited_wheel =
     Inr (10, [Card Spades RA, Card Spades R2, Card Spades R3, Card Spades R4, Card Spades R5])"
  by code_simp

text \<open>
  C2. A full house is returned in plain descending order of value, pair or trips first as
  their values fall: 2-2-2-A-A comes out aces first and then compares above K-K-K-Q-Q.
\<close>

theorem full_house_keeps_value_order:
  "calculate_hand_rank twos_full_of_aces =
     Inr (7, [Card Clubs RA, Card Spades RA, Card Spades R2, Card Hearts R2, Card Diamonds R2])
   \<and> calculate_hand_rank kings_full_of_queens =
     Inr (7, [Card Spades RK, Card Hearts RK, Card Diamonds RK, Card Clubs RQ, Card Spades RQ])
   \<and> compare_hands
       [Card Clubs RA, Card Spades RA, Card Spades R2, Card Hearts R2, Card Diamonds R2]
       [Card Spades RK, Card Hearts RK, Card Diamonds RK, Card Clubs RQ, Card Spades RQ] = 1"
  by code_simp

text \<open>
  C8. The unsuited wheel gets category 5 and the ace is moved, but to the front of the
  sequence: compared position by position with a six-high straight, the wheel's ace meets
  the six first and the wheel compares above it.
\<close>

theorem wheel_compares_above_six_high:
  "calculate_hand_rank wheel =
     Inr (5, [Card Spades RA, Card Hearts R2, Card Diamonds R3, Card Clubs R4, Card Spades R5])
   \<and> calculate_hand_rank six_high_straight =
     Inr (5, [Card Spades R6, Card Spades R5, Card Clubs R4, Card Diamonds R3, Card Hearts R2])
   \<and> compare_hands
       [Card Spades RA, Card Hearts R2, Card Diamonds R3, Card Clubs R4, Card Spades R5]
       [Card Spades R6, Card Spades R5, Card Clubs R4, Card Diamonds R3, Card Hearts R2] = 1"
  by code_simp

section \<open>What a state update shows\<close>

lemma cards_to_dicts_Inr:
  "cards_to_dicts cs = Inr ds \<Longrightarrow> ds = map (\<lambda>c. card_to_dict (the c)) cs"
  by (induction cs arbitrary: ds rule: cards_to_dicts.induct) (auto split: sum.splits)

lemma to_dict_hand:
  "to_dict p show_cards = Inr d \<Longrightarrow>
     d_hand d = (if show_cards \<or> \<not> is_bot p then map (\<lambda>c. card_to_dict (the c)) (hand p)
                 else [EmptyDict, EmptyDict])"
  by (auto simp: to_dict_def split: sum.splits if_splits dest: cards_to_dicts_Inr)

lemma players_to_dicts_hands:
  "players_to_dicts ps show_all = Inr ds \<Longrightarrow>
     map d_hand ds =
       map (\<lambda>p. if (show_all \<or> \<not> in_hand p) \<or> \<not> is_bot p
                 then map (\<lambda>c. card_to_dict (the c)) (hand p)
                 else [EmptyDict, EmptyDict]) ps"
proof (induction ps arbitrary: ds)
  case Nil
  then show ?case by simp
next
  case (Cons p ps)
  then show ?case
    by (auto split: sum.splits dest!: to_dict_hand)
qed

text \<open>
  C9, as the code has it. \<open>get_state\<close> takes no viewer: one payload goes to every client.
  With \<open>show_all_cards\<close> false, the payload hides the cards of exactly the bots that are
  still in the hand, and hides them behind two empty placeholders whatever the number of
  cards held; the cards of every player that is not a bot, and of every player that has
  folded, bot or not, are in the payload.
\<close>

theorem get_state_hides_bots_in_hand:
  assumes "get_state s False = Inr payload"
  shows "map d_hand (d_players payload) =
           map (\<lambda>p. if is_bot p \<and> in_hand p then [EmptyDict, EmptyDict] else shown p)
               (players s)"
proof -
  from assms obtain ds where ds: "players_to_dicts (players s) False = Inr ds"
    and pl: "d_players payload = ds"
    by (auto simp: get_state_def split: sum.splits)
  have "map d_hand ds =
       map (\<lambda>p. if (False \<or> \<not> in_hand p) \<or> \<not> is_bot p
                 then map (\<lambda>c. card_to_dict (the c)) (hand p)
                 else [EmptyDict, EmptyDict]) (players s)"
    using ds by (rule players_to_dicts_hands)
  also have "\<dots> = map (\<lambda>p. if is_bot p \<and> in_hand p then [EmptyDict, EmptyDict] else shown p)
               (players s)"
    by (rule map_cong) (auto simp: shown_def)
  finally show ?thesis by (simp add: pl)
qed

text \<open>
  The claim of C9 fails twice. In the middle of a hand the payload carries the two cards
  of Bot Alice, a bot that has folded. And on the table as the first connection seats it,
  where nobody holds a card yet, each bot gets two placeholders.
\<close>

theorem folded_bot_cards_are_sent:
  "map_sum id (\<lambda>d. map d_hand (d_players d)) (get_state dealt_table False) =
     Inr [[CardDict Spades R7 ''black'', CardDict Spades R8 ''black''],
          [CardDict Hearts RA ''red'', CardDict Clubs RK ''black''],
          [EmptyDict, EmptyDict]]
   \<and> is_bot (players dealt_table ! 1) \<and> \<not> in_hand (players dealt_table ! 1)
   \<and> map (\<lambda>p. length (hand p)) (players seated_table) = [0, 0, 0, 0]
   \<and> map_sum id (\<lambda>d. map d_hand (d_players d)) (get_state seated_table False) =
     Inr [[], [EmptyDict, EmptyDict], [EmptyDict, EmptyDict], [EmptyDict, EmptyDict]]"
  by (simp add: get_state_def dealt_table_def seated_table_def add_player_def Game_def
        Player_def reset_for_hand_def to_dict_def card_to_dict_def Card_def)

text \<open>At the river of the split table the payload shows the human's two cards and two
  placeholders for the bot.\<close>

theorem get_state_hides_bots_in_hand_witness:
  "get_state split_table False = Inr (projr (get_state split_table False))
   \<and> map d_hand (d_players (projr (get_state split_table False))) = split_payload_hands"
proof -
  have e: "get_state split_table False = Inr (projr (get_state split_table False))"
    by (simp add: get_state_def split_table_def Game_def Player_def reset_for_hand_def
        to_dict_def card_to_dict_def Card_def)
  show ?thesis
    using get_state_hides_bots_in_hand [OF e] e
    by (simp add: split_payload_hands_def split_table_def Game_def Player_def
          reset_for_hand_def shown_def card_to_dict_def Card_def)
qed

section \<open>Turn order\<close>

lemma scan_no_error:
  "ps \<noteq> [] \<Longrightarrow> next_active_scan ps i k \<noteq> Inl e"
  by (induction k arbitrary: i) (auto simp: Let_def)

lemma scan_Some:
  "ps \<noteq> [] \<Longrightarrow> next_active_scan ps i k = Inr (Some r) \<Longrightarrow>
     \<exists>j. 1 \<le> j \<and> j \<le> k \<and> r = (i + int j) mod int (length ps)
       \<and> can_act (ps ! nat r)
       \<and> (\<forall>j'. 1 \<le> j' \<and> j' < j \<longrightarrow> \<not> can_act (ps ! nat ((i + int j') mod int (length ps))))"
proof (induction k arbitrary: i)
  case 0
  then show ?case by simp
next
  case (Suc k)
  let ?n = "int (length ps)"
  let ?i' = "(i + 1) mod ?n"
  show ?case
  proof (cases "can_act (ps ! nat ?i')")
    case True
    with Suc.prems have "r = ?i'" by (auto simp: Let_def can_act_def)
    with True show ?thesis by (intro exI[of _ 1]) auto
  next
    case False
    with Suc.prems have "next_active_scan ps ?i' k = Inr (Some r)"
      by (auto simp: Let_def can_act_def)
    from Suc.IH[OF Suc.prems(1) this] obtain j where j: "1 \<le> j" "j \<le> k"
      "r = (?i' + int j) mod ?n" "can_act (ps ! nat r)"
      "\<forall>j'. 1 \<le> j' \<and> j' < j \<longrightarrow> \<not> can_act (ps ! nat ((?i' + int j') mod ?n))"
      by blast
    have shift: "(?i' + int m) mod ?n = (i + int (Suc m)) mod ?n" for m
    proof -
      have "(?i' + int m) mod ?n = (i + 1 + int m) mod ?n" by (rule mod_add_left_eq)
      also have "i + 1 + int m = i + int (Suc m)" by simp
      finally show ?thesis .
    qed
    have "\<forall>j'. 1 \<le> j' \<and> j' < Suc j \<longrightarrow> \<not> can_act (ps ! nat ((i + int j') mod ?n))"
    proof (intro allI impI)
      fix j' assume a: "1 \<le> j' \<and> j' < Suc j"
      show "\<not> can_act (ps ! nat ((i + int j') mod ?n))"
      proof (cases "j' = 1")
        case True
        then show ?thesis using False by simp
      next
        case False
        then obtain m where m: "j' = Suc m" "1 \<le> m" "m < j" using a by (cases j') auto
        with j(5) have "\<not> can_act (ps ! nat ((?i' + int m) mod ?n))" by blast
        then show ?thesis unfolding shift m(1) .
      qed
    qed
    moreover have "r = (i + int (Suc j)) mod ?n" using j(3) shift by simp
    ultimately show ?thesis using j(1,2,4) by (intro exI[of _ "Suc j"]) auto
  qed
qed

lemma scan_None:
  "ps \<noteq> [] \<Longrightarrow> next_active_scan ps i k = Inr None \<Longrightarrow> 1 \<le> j \<Longrightarrow> j \<le> k \<Longrightarrow>
     \<not> can_act (ps ! nat ((i + int j) mod int (length ps)))"
proof (induction k arbitrary: i j)
  case 0
  then show ?case by simp
next
  case (Suc k)
  let ?n = "int (length ps)"
  let ?i' = "(i + 1) mod ?n"
  from Suc.prems(1,2) have nc: "\<not> can_act (ps ! nat ?i')"
    and rest: "next_active_scan ps ?i' k = Inr None"
    by (auto simp: Let_def can_act_def split: if_splits)
  show ?case
  proof (cases "j = 1")
    case True
    then show ?thesis using nc by simp
  next
    case False
    then obtain m where m: "j = Suc m" "1 \<le> m" "m \<le> k" using Suc.prems(3,4) by (cases j) auto
    have "\<not> can_act (ps ! nat ((?i' + int m) mod ?n))"
      by (rule Suc.IH[OF Suc.prems(1) rest m(2,3)])
    moreover have "(?i' + int m) mod ?n = (i + int j) mod ?n"
    proof -
      have "(?i' + int m) mod ?n = (i + 1 + int m) mod ?n" by (rule mod_add_left_eq)
      also have "i + 1 + int m = i + int j" by (simp add: m(1))
      finally show ?thesis .
    qed
    ultimately show ?thesis by simp
  qed
qed

lemma scan_not_found:
  "ps \<noteq> [] \<Longrightarrow> \<forall>j. 1 \<le> j \<and> j \<le> k \<longrightarrow> \<not> can_act (ps ! nat ((i + int j) mod int (length ps)))
     \<Longrightarrow> next_active_scan ps i k = Inr None"
proof (cases "next_active_scan ps i k")
  case (Inl e)
  assume "ps \<noteq> []" then show ?thesis using Inl scan_no_error by blast
next
  case (Inr r)
  assume ne: "ps \<noteq> []" and no: "\<forall>j. 1 \<le> j \<and> j \<le> k \<longrightarrow> \<not> can_act (ps ! nat ((i + int j) mod int (length ps)))"
  show ?thesis
  proof (cases r)
    case None
    then show ?thesis using Inr by simp
  next
    case (Some x)
    with Inr scan_Some[OF ne, of i k x] no show ?thesis by blast
  qed
qed

lemma seat_reached:
  assumes "m < length ps"
  shows "\<exists>j. 1 \<le> j \<and> j \<le> length ps \<and> (i + int j) mod int (length ps) = int m"
proof -
  let ?n = "int (length ps)"
  have n: "0 < ?n" using assms by (cases ps) simp_all
  let ?d = "(int m - i - 1) mod ?n"
  have d: "0 \<le> ?d" "?d < ?n" using n by simp_all
  have "(i + (1 + ?d)) mod ?n = (i + 1 + (int m - i - 1)) mod ?n"
    by (metis add.assoc mod_add_right_eq)
  also have "\<dots> = int m mod ?n" by simp
  also have "\<dots> = int m" using assms by simp
  finally have e: "(i + int (nat (1 + ?d))) mod ?n = int m" using d by simp
  show ?thesis
    by (rule exI[of _ "nat (1 + ?d)"]) (use e d in auto)
qed


text \<open>
  C6, for a table with at least one seat. If some seat can act, the loop returns at its
  \<open>j\<close>-th iteration for some \<open>j\<close> from 1 to the number of seats, so within one lap:
  the result is the seat \<open>j\<close> places after the start, circularly, that seat can act (it
  is in the hand and not all-in), and none of the seats passed before it can. If no seat
  can act, the result is the start index as it was given.
\<close>

theorem next_active_seat:
  assumes ne: "players s \<noteq> []"
  shows "if \<exists>m < length (players s). can_act (players s ! m)
         then \<exists>j. 1 \<le> j \<and> j \<le> length (players s)
                \<and> get_next_active_player s start_index
                    = Inr ((start_index + int j) mod int (length (players s)))
                \<and> can_act (players s ! nat ((start_index + int j) mod int (length (players s))))
                \<and> (\<forall>j'. 1 \<le> j' \<and> j' < j \<longrightarrow>
                      \<not> can_act (players s ! nat ((start_index + int j') mod int (length (players s)))))
         else get_next_active_player s start_index = Inr start_index"
proof (cases "\<exists>m < length (players s). can_act (players s ! m)")
  case False
  have "next_active_scan (players s) start_index (length (players s) + 1) = Inr None"
  proof (rule scan_not_found[OF ne], intro allI impI)
    fix j assume "1 \<le> j \<and> j \<le> length (players s) + 1"
    let ?r = "(start_index + int j) mod int (length (players s))"
    have "0 \<le> ?r" "?r < int (length (players s))" using ne by simp_all
    then have "nat ?r < length (players s)" by simp
    then show "\<not> can_act (players s ! nat ?r)" using False by blast
  qed
  then have "get_next_active_player s start_index = Inr start_index"
    unfolding get_next_active_player_def by simp
  then show ?thesis by (simp only: False if_False)
next
  case True
  let ?ps = "players s"
  let ?n = "int (length ?ps)"
  from True obtain m where m: "m < length ?ps" "can_act (?ps ! m)" by blast
  from seat_reached[OF m(1), of start_index] obtain j0 where j0: "1 \<le> j0" "j0 \<le> length ?ps"
    "(start_index + int j0) mod ?n = int m" by blast
  have notNone: "next_active_scan ?ps start_index (length ?ps + 1) \<noteq> Inr None"
  proof
    assume "next_active_scan ?ps start_index (length ?ps + 1) = Inr None"
    from scan_None[OF ne this j0(1)] j0(2) have "\<not> can_act (?ps ! nat ((start_index + int j0) mod ?n))"
      by simp
    then show False using m(2) j0(3) by simp
  qed
  have "\<exists>r. next_active_scan ?ps start_index (length ?ps + 1) = Inr (Some r)"
  proof (cases "next_active_scan ?ps start_index (length ?ps + 1)")
    case (Inl e)
    with scan_no_error[OF ne] show ?thesis by blast
  next
    case (Inr x)
    with notNone show ?thesis by (cases x) blast+
  qed
  then obtain r where r: "next_active_scan ?ps start_index (length ?ps + 1) = Inr (Some r)"
    by blast
  from scan_Some[OF ne r] obtain j where j: "1 \<le> j" "j \<le> length ?ps + 1"
    "r = (start_index + int j) mod ?n" "can_act (?ps ! nat r)"
    "\<forall>j'. 1 \<le> j' \<and> j' < j \<longrightarrow> \<not> can_act (?ps ! nat ((start_index + int j') mod ?n))"
    by blast
  have "j \<le> length ?ps"
  proof (rule ccontr)
    assume "\<not> j \<le> length ?ps"
    then have "j0 < j" using j0(2) by simp
    with j(5) j0(1) have "\<not> can_act (?ps ! nat ((start_index + int j0) mod ?n))" by blast
    then show False using m(2) j0(3) by simp
  qed
  moreover have "get_next_active_player s start_index = Inr r"
    unfolding get_next_active_player_def r by simp
  ultimately show ?thesis using True j by auto
qed


text \<open>
  On the table as \<open>Game()\<close> builds it, with no seat, the claim of C6 asks for the start
  index back; the modulus by the number of seats raises instead.
\<close>

theorem empty_table_has_no_next_seat:
  "get_next_active_player Game 0 = Inl ZeroDivisionError"
  by (simp add: get_next_active_player_def Game_def)

text \<open>
  From seat 0 of the table where only seat 0 can act, the scan passes the folded and the
  all-in seat and comes back to seat 0; with seat 0 removed no seat can act, and the start
  index 7 is returned.
\<close>

theorem next_active_seat_witness:
  "players all_in_table \<noteq> [] \<and> (\<exists>m < length (players all_in_table). can_act (players all_in_table ! m))
   \<and> get_next_active_player all_in_table 0 = Inr 0
   \<and> get_next_active_player (all_in_table\<lparr>players := tl (players all_in_table)\<rparr>) 7 = Inr 7"
proof -
  have ne: "players all_in_table \<noteq> []" by (simp add: all_in_table_def)
  have ne2: "players (all_in_table\<lparr>players := tl (players all_in_table)\<rparr>) \<noteq> []" by (simp add: all_in_table_def)
  have ex: "\<exists>m < length (players all_in_table). can_act (players all_in_table ! m)"
    by (rule exI[of _ 0]) (simp add: all_in_table_def can_act_def Player_def reset_for_hand_def)
  have a: "get_next_active_player all_in_table 0 = Inr 0"
    by (simp add: get_next_active_player_def all_in_table_def Player_def reset_for_hand_def numeral_3_eq_3)
  have none: "\<not> (\<exists>m < length (players (all_in_table\<lparr>players := tl (players all_in_table)\<rparr>)).
     can_act (players (all_in_table\<lparr>players := tl (players all_in_table)\<rparr>) ! m))"
  proof -
    have "\<forall>p \<in> set (players (all_in_table\<lparr>players := tl (players all_in_table)\<rparr>)). \<not> can_act p"
      by (simp add: all_in_table_def can_act_def Player_def reset_for_hand_def)
    then show ?thesis by (metis nth_mem)
  qed
  show ?thesis
    using next_active_seat [OF ne, of 0] next_active_seat [OF ne2, of 7] ne ex a none
    by (simp only: if_False if_True simp_thms)
qed

section \<open>Posting the blinds\<close>

lemma gnap_total:
  assumes ne: "players s \<noteq> []"
  shows "\<exists>r. get_next_active_player s i = Inr r"
proof (cases "next_active_scan (players s) i (length (players s) + 1)")
  case (Inl e)
  with scan_no_error[OF ne] show ?thesis by blast
next
  case (Inr x)
  then show ?thesis unfolding get_next_active_player_def by (cases x) simp_all
qed

lemma gnap_empty: "players s = [] \<Longrightarrow> get_next_active_player s i = Inl ZeroDivisionError"
  by (simp add: get_next_active_player_def)

lemma gnap_result:
  assumes ne: "players s \<noteq> []" and g: "get_next_active_player s i = Inr r"
  shows "(0 \<le> r \<and> r < int (length (players s)) \<and> can_act (players s ! nat r))
       \<or> (r = i \<and> (\<forall>m < length (players s). \<not> can_act (players s ! m)))"
proof (cases "next_active_scan (players s) i (length (players s) + 1)")
  case (Inl e)
  with scan_no_error[OF ne] show ?thesis by blast
next
  case (Inr x)
  show ?thesis
  proof (cases x)
    case None
    have sc: "next_active_scan (players s) i (length (players s) + 1) = Inr None"
      using Inr None by simp
    have "r = i" using g unfolding get_next_active_player_def sc by simp
    moreover have "\<not> can_act (players s ! m)" if m: "m < length (players s)" for m
    proof -
      from seat_reached[OF m, of i] obtain j where j: "1 \<le> j" "j \<le> length (players s)"
        "(i + int j) mod int (length (players s)) = int m" by blast
      from scan_None[OF ne sc j(1)] j(2)
      have "\<not> can_act (players s ! nat ((i + int j) mod int (length (players s))))" by simp
      then show ?thesis by (simp add: j(3))
    qed
    ultimately show ?thesis by blast
  next
    case (Some y)
    have sc: "next_active_scan (players s) i (length (players s) + 1) = Inr (Some y)"
      using Inr Some by simp
    have ry: "r = y" using g unfolding get_next_active_player_def sc by simp
    from scan_Some[OF ne sc] obtain j where
      "y = (i + int j) mod int (length (players s))" "can_act (players s ! nat y)" by blast
    moreover have "0 \<le> (i + int j) mod int (length (players s))"
      "(i + int j) mod int (length (players s)) < int (length (players s))" for j
      using ne by simp_all
    ultimately show ?thesis using ry by simp
  qed
qed

lemma gnap_prev:
  assumes r: "0 \<le> r" "r < int (length (players s))" and c: "can_act (players s ! nat r)"
  shows "get_next_active_player s (r - 1) = Inr r"
proof -
  have ne: "length (players s) \<noteq> 0" using r by auto
  have m: "(r - 1 + 1) mod int (length (players s)) = r" using r by simp
  have "next_active_scan (players s) (r - 1) (Suc (length (players s))) = Inr (Some r)"
    using c ne unfolding next_active_scan.simps m Let_def can_act_def by simp
  then show ?thesis unfolding get_next_active_player_def by simp
qed

lemma py_pos_in_range:
  "0 \<le> i \<Longrightarrow> i < int (length xs) \<Longrightarrow> py_pos xs i = Some (nat i)"
  by (simp add: py_pos_def Let_def)

text \<open>
  C10, where the small blind and the big blind fall on two different seats. The blinds are
  posted without error. A blind seat that holds no more than its blind is left with no
  chips and with a bet equal to the chips it held; it is still not marked all-in and its
  status label is what it was; and \<open>get_next_active_player\<close>, asked from the seat before
  it, selects it.
\<close>

theorem blinds_leave_short_stack_unflagged:
  assumes sb: "get_next_active_player s (dealer_pos s) = Inr sb_pos"
      and bb: "get_next_active_player s sb_pos = Inr bb_pos"
      and ne: "sb_pos \<noteq> bb_pos"
  shows "\<exists>s'. post_blinds s = Inr s'
          \<and> (chips (players s ! nat sb_pos) \<le> small_blind s \<longrightarrow>
                chips (players s' ! nat sb_pos) = 0
              \<and> bet (players s' ! nat sb_pos) = chips (players s ! nat sb_pos)
              \<and> \<not> is_all_in (players s' ! nat sb_pos)
              \<and> status (players s' ! nat sb_pos) = status (players s ! nat sb_pos)
              \<and> get_next_active_player s' (sb_pos - 1) = Inr sb_pos)
          \<and> (chips (players s ! nat bb_pos) \<le> big_blind s \<longrightarrow>
                chips (players s' ! nat bb_pos) = 0
              \<and> bet (players s' ! nat bb_pos) = chips (players s ! nat bb_pos)
              \<and> \<not> is_all_in (players s' ! nat bb_pos)
              \<and> status (players s' ! nat bb_pos) = status (players s ! nat bb_pos)
              \<and> get_next_active_player s' (bb_pos - 1) = Inr bb_pos)"
proof -
  let ?ps = "players s"
  have pne: "?ps \<noteq> []" using sb gnap_empty[of s "dealer_pos s"] by auto
  have sbr: "0 \<le> sb_pos \<and> sb_pos < int (length ?ps) \<and> can_act (?ps ! nat sb_pos)"
  proof (rule ccontr)
    assume a: "\<not> ?thesis"
    with gnap_result[OF pne sb] have "sb_pos = dealer_pos s" by blast
    with sb bb ne show False by simp
  qed
  have bbr: "0 \<le> bb_pos \<and> bb_pos < int (length ?ps) \<and> can_act (?ps ! nat bb_pos)"
  proof (rule ccontr)
    assume a: "\<not> ?thesis"
    with gnap_result[OF pne bb] have "\<forall>m < length ?ps. \<not> can_act (?ps ! m)" by blast
    moreover have "nat sb_pos < length ?ps" using sbr by linarith
    ultimately show False using sbr by blast
  qed
  let ?a = "nat sb_pos" and ?b = "nat bb_pos"
  have ab: "?a \<noteq> ?b" "?a < length ?ps" "?b < length ?ps" using ne sbr bbr by linarith+
  define sb_amount where "sb_amount = min (small_blind s) (chips (?ps ! ?a))"
  define s1 where "s1 = update_player s ?a (\<lambda>p. p\<lparr>chips := chips p - sb_amount, bet := sb_amount\<rparr>)"
  define bb_amount where "bb_amount = min (big_blind s1) (chips (players s1 ! ?b))"
  define s2 where "s2 = update_player s1 ?b (\<lambda>p. p\<lparr>chips := chips p - bb_amount, bet := bb_amount\<rparr>)"
  have len: "length (players s1) = length ?ps" "length (players s2) = length ?ps"
    by (simp_all add: s1_def s2_def update_player_def)
  have p1: "py_pos ?ps sb_pos = Some ?a" using sbr by (simp add: py_pos_in_range)
  have p2: "py_pos (players s1) bb_pos = Some ?b" using bbr len by (simp add: py_pos_in_range)
  have s2ne: "players s2 \<noteq> []" using pne len by auto
  from gnap_total[OF s2ne, of bb_pos] obtain i where i: "get_next_active_player s2 bb_pos = Inr i"
    by blast
  define s' where "s' = s2\<lparr>current_bet := big_blind s2, last_raise := big_blind s2,
                           current_player_index := i\<rparr>"
  have pb: "post_blinds s = Inr s'"
    using p2 i
    unfolding s'_def s2_def bb_amount_def s1_def sb_amount_def post_blinds_def
    by (simp add: sb bb p1 Let_def)
  have pa: "players s' ! ?a = (?ps ! ?a)\<lparr>chips := chips (?ps ! ?a) - sb_amount, bet := sb_amount\<rparr>"
    using ab by (simp add: s'_def s2_def s1_def update_player_def)
  have pbb: "players s' ! ?b = (?ps ! ?b)\<lparr>chips := chips (?ps ! ?b) - bb_amount, bet := bb_amount\<rparr>"
    using ab by (simp add: s'_def s2_def s1_def update_player_def)
  have bba: "bb_amount = min (big_blind s) (chips (?ps ! ?b))"
    using ab by (simp add: bb_amount_def s1_def update_player_def)
  have len': "length (players s') = length ?ps" by (simp add: s'_def len)
  have ca: "can_act (players s' ! ?a)" using sbr by (simp add: pa can_act_def)
  have cb: "can_act (players s' ! ?b)" using bbr by (simp add: pbb can_act_def)
  have ga: "get_next_active_player s' (sb_pos - 1) = Inr sb_pos"
    by (rule gnap_prev) (use sbr len' ca in simp_all)
  have gb: "get_next_active_player s' (bb_pos - 1) = Inr bb_pos"
    by (rule gnap_prev) (use bbr len' cb in simp_all)
  have na: "\<not> is_all_in (?ps ! ?a)" "\<not> is_all_in (?ps ! ?b)"
    using sbr bbr by (simp_all add: can_act_def)
  show ?thesis
    using pb ga gb na by (auto simp: pa pbb sb_amount_def bba)
qed



text \<open>
  Where one seat alone can act, both blinds fall on it. Holding 5 against a small blind of
  10, it posts 5 and then a big blind of 0, which overwrites its bet: it ends with no chips
  and a bet of 0, not of 5 as the claim of C10 has it.
\<close>

theorem lone_seat_posts_both_blinds:
  "get_next_active_player lone_short_stack (dealer_pos lone_short_stack) = Inr 0
   \<and> get_next_active_player lone_short_stack 0 = Inr 0
   \<and> chips (players lone_short_stack ! 0) = 5
   \<and> small_blind lone_short_stack = 10
   \<and> map_sum id (\<lambda>s'. (chips (players s' ! 0), bet (players s' ! 0)))
        (post_blinds lone_short_stack) = Inr (0, 0)"
  by (simp add: post_blinds_def get_next_active_player_def lone_short_stack_def Game_def
        Player_def reset_for_hand_def py_pos_def update_player_def numeral_2_eq_2)

text \<open>
  Two seats holding 15 and 5 with blinds of 10 and 20: both post all they have, neither is
  marked all-in, each is still selected for action.
\<close>

theorem blinds_leave_short_stack_unflagged_witness:
  "get_next_active_player short_stacks (dealer_pos short_stacks) = Inr 1
   \<and> get_next_active_player short_stacks 1 = Inr 0
   \<and> (1::int) \<noteq> 0
   \<and> chips (players short_stacks ! 1) \<le> small_blind short_stacks
   \<and> chips (players short_stacks ! 0) \<le> big_blind short_stacks
   \<and> (\<exists>s'. post_blinds short_stacks = Inr s'
        \<and> chips (players s' ! 1) = 0 \<and> bet (players s' ! 1) = 5
        \<and> \<not> is_all_in (players s' ! 1)
        \<and> get_next_active_player s' 0 = Inr 1
        \<and> chips (players s' ! 0) = 0 \<and> bet (players s' ! 0) = 15
        \<and> \<not> is_all_in (players s' ! 0)
        \<and> get_next_active_player s' (- 1) = Inr 0)"
proof -
  have sb: "get_next_active_player short_stacks (dealer_pos short_stacks) = Inr 1"
    by (simp add: get_next_active_player_def short_stacks_def Game_def Player_def
          reset_for_hand_def numeral_2_eq_2)
  have bb: "get_next_active_player short_stacks 1 = Inr 0"
    by (simp add: get_next_active_player_def short_stacks_def Game_def Player_def
          reset_for_hand_def numeral_2_eq_2)
  have ne: "(1::int) \<noteq> 0" by simp
  have v: "chips (players short_stacks ! Suc 0) = 5" "chips (players short_stacks ! 0) = 15"
    "small_blind short_stacks = 10" "big_blind short_stacks = 20"
    by (simp_all add: short_stacks_def Game_def Player_def reset_for_hand_def)
  show ?thesis
    using blinds_leave_short_stack_unflagged [OF sb bb ne] sb bb
    by (auto simp: v)
qed

section \<open>The preparation of a round\<close>

lemma round_setup_players:
  assumes "round_setup stage_name cards_to_deal s0 = Inr s"
  shows "players s = players s0 \<and> current_bet s = current_bet s0 \<and> stage_name = ''Pre-Flop''
       \<or> players s = map (\<lambda>p. p\<lparr>bet := 0\<rparr>) (players s0) \<and> current_bet s = 0
           \<and> stage_name \<noteq> ''Pre-Flop''"
  using assms
  by (auto simp: round_setup_def Let_def split: if_splits sum.splits option.splits prod.splits)

lemma round_setup_pot:
  assumes "round_setup stage_name cards_to_deal s0 = Inr s"
  shows "pot s = pot s0"
  using assms
  by (auto simp: round_setup_def Let_def split: if_splits sum.splits option.splits prod.splits)

lemma round_setup_counts:
  assumes "round_setup stage_name cards_to_deal s0 = Inr s"
  shows "players_left s = players_left s0" "players_with_option s = players_with_option s0"
  using round_setup_players[OF assms]
  by (auto simp: players_left_def players_with_option_def filter_map comp_def)

lemma collect_bets_left: "players_left (collect_bets s) = players_left s"
  by (simp add: collect_bets_eq players_left_def filter_map comp_def)

section \<open>The loop of the showdown\<close>

lemma evaluate_loop_ge:
  "evaluate_loop cs b h = Inr (r, c) \<Longrightarrow> b \<le> r"
proof (induction cs arbitrary: b h)
  case Nil
  then show ?case by simp
next
  case (Cons combo cs)
  then show ?case
    by (fastforce split: sum.splits prod.splits if_splits)
qed

lemma evaluate_hand_ge:
  "evaluate_hand h = Inr (r, c, n) \<Longrightarrow> - 1 \<le> r"
  by (auto simp: evaluate_hand_def split: sum.splits prod.splits dest: evaluate_loop_ge)

lemma store_result_chips:
  "map chips (ps[i := (ps ! i)\<lparr>hand_result := x\<rparr>]) = map chips ps"
proof (cases "i < length ps")
  case True
  have "map chips (ps[i := (ps ! i)\<lparr>hand_result := x\<rparr>]) = (map chips ps)[i := map chips ps ! i]"
    using True by (simp add: map_update)
  then show ?thesis by simp
next
  case False
  then have "length ps \<le> i" by simp
  then show ?thesis by (simp add: list_update_beyond)
qed

lemma showdown_loop_step:
  assumes "showdown_loop cc (i # rest) ps winners best = Inr res"
  shows "\<exists>rank_val cards hname w1 b1.
           evaluate_hand (hand (ps ! i) @ cc) = Inr (rank_val, cards, hname)
         \<and> (w1 = [i] \<or> (winners \<noteq> [] \<and> (w1 = winners @ [i] \<or> w1 = winners))
              \<or> (w1 = winners \<and> rank_val < best))
         \<and> showdown_loop cc rest
              (ps[i := (ps ! i)\<lparr>hand_result := Some (rank_val, cards, hname)\<rparr>]) w1 b1 = Inr res"
proof -
  from assms obtain r cards hname where
    ev: "evaluate_hand (hand (ps ! i) @ cc) = Inr (r, cards, hname)"
    by (auto split: sum.splits)
  let ?ps1 = "ps[i := (ps ! i)\<lparr>hand_result := Some (r, cards, hname)\<rparr>]"
  consider (gt) "r > best" | (eq) "r = best" | (lt) "r < best" by linarith
  then show ?thesis
  proof cases
    case gt
    with assms ev have "showdown_loop cc rest ?ps1 [i] r = Inr res" by (simp add: Let_def)
    with ev show ?thesis by blast
  next
    case lt
    with assms ev have "showdown_loop cc rest ?ps1 winners best = Inr res" by (simp add: Let_def)
    with ev lt show ?thesis by blast
  next
    case eq
    from assms ev eq obtain w0 ws where w: "winners = w0 # ws"
      by (cases winners) (auto simp: Let_def)
    from assms ev eq w obtain a wcards c where hr: "hand_result (?ps1 ! w0) = Some (a, wcards, c)"
      by (cases "hand_result (?ps1 ! w0)") (auto simp: Let_def)
    have wn: "winners \<noteq> []" using w by simp
    consider (one) "compare_hands cards wcards = 1" | (zero) "compare_hands cards wcards = 0"
      | (other) "compare_hands cards wcards \<noteq> 1" "compare_hands cards wcards \<noteq> 0" by blast
    then show ?thesis
    proof cases
      case one
      with assms ev eq w hr have "showdown_loop cc rest ?ps1 [i] best = Inr res"
        by (simp add: Let_def)
      with ev show ?thesis by blast
    next
      case zero
      with assms ev eq w hr have "showdown_loop cc rest ?ps1 (winners @ [i]) best = Inr res"
        by (simp add: Let_def)
      with ev wn show ?thesis by blast
    next
      case other
      with assms ev eq w hr have "showdown_loop cc rest ?ps1 winners best = Inr res"
        by (simp add: Let_def)
      with ev wn show ?thesis by blast
    qed
  qed
qed

lemma showdown_loop_chips:
  "showdown_loop cc rest ps winners best = Inr (ps', winners') \<Longrightarrow>
     map chips ps' = map chips ps"
proof (induction rest arbitrary: ps winners best)
  case Nil
  then show ?case by simp
next
  case (Cons i rest)
  from showdown_loop_step[OF Cons.prems] obtain r cards hname w1 b1 where
    ev: "evaluate_hand (hand (ps ! i) @ cc) = Inr (r, cards, hname)"
    and w1: "w1 = [i] \<or> (winners \<noteq> [] \<and> (w1 = winners @ [i] \<or> w1 = winners))
              \<or> (w1 = winners \<and> r < best)"
    and rec: "showdown_loop cc rest
              (ps[i := (ps ! i)\<lparr>hand_result := Some (r, cards, hname)\<rparr>]) w1 b1
                = Inr (ps', winners')"
    by blast
  have "map chips ps' = map chips (ps[i := (ps ! i)\<lparr>hand_result := Some (r, cards, hname)\<rparr>])"
    using rec by (rule Cons.IH)
  then show ?case by (simp only: store_result_chips)
qed

lemma showdown_loop_winners:
  "showdown_loop cc rest ps winners best = Inr (ps', winners') \<Longrightarrow>
     distinct (winners @ rest) \<Longrightarrow>
     distinct winners' \<and> set winners' \<subseteq> set winners \<union> set rest"
proof (induction rest arbitrary: ps winners best)
  case Nil
  then show ?case by simp
next
  case (Cons i rest)
  from showdown_loop_step[OF Cons.prems(1)] obtain r cards hname w1 b1 where
    ev: "evaluate_hand (hand (ps ! i) @ cc) = Inr (r, cards, hname)"
    and w1: "w1 = [i] \<or> (winners \<noteq> [] \<and> (w1 = winners @ [i] \<or> w1 = winners))
              \<or> (w1 = winners \<and> r < best)"
    and rec: "showdown_loop cc rest
              (ps[i := (ps ! i)\<lparr>hand_result := Some (r, cards, hname)\<rparr>]) w1 b1
                = Inr (ps', winners')"
    by blast
  have c: "w1 = [i] \<or> w1 = winners @ [i] \<or> w1 = winners" using w1 by blast
  have di: "i \<notin> set winners" "i \<notin> set rest" "distinct winners" "distinct rest"
    "set winners \<inter> set rest = {}"
    using Cons.prems(2) by auto
  have d: "distinct (w1 @ rest)" using c di by auto
  have sub: "set w1 \<subseteq> set winners \<union> {i}" using c by auto
  have "distinct winners' \<and> set winners' \<subseteq> set w1 \<union> set rest"
    using rec d by (rule Cons.IH)
  then show ?case using sub by auto
qed

lemma showdown_loop_nonempty:
  "showdown_loop cc rest ps winners best = Inr (ps', winners') \<Longrightarrow>
     winners \<noteq> [] \<or> (rest \<noteq> [] \<and> best \<le> - 1) \<Longrightarrow> winners' \<noteq> []"
proof (induction rest arbitrary: ps winners best)
  case Nil
  then show ?case by simp
next
  case (Cons i rest)
  from showdown_loop_step[OF Cons.prems(1)] obtain r cards hname w1 b1 where
    ev: "evaluate_hand (hand (ps ! i) @ cc) = Inr (r, cards, hname)"
    and w1: "w1 = [i] \<or> (winners \<noteq> [] \<and> (w1 = winners @ [i] \<or> w1 = winners))
              \<or> (w1 = winners \<and> r < best)"
    and rec: "showdown_loop cc rest
              (ps[i := (ps ! i)\<lparr>hand_result := Some (r, cards, hname)\<rparr>]) w1 b1
                = Inr (ps', winners')"
    by blast
  have r: "- 1 \<le> r" using ev by (rule evaluate_hand_ge)
  have "w1 \<noteq> []"
  proof (cases "winners = []")
    case True
    then have "best \<le> - 1" using Cons.prems(2) by simp
    then have "\<not> r < best" using r by simp
    then show ?thesis using w1 True by auto
  next
    case False
    then show ?thesis using w1 by auto
  qed
  then have "w1 \<noteq> [] \<or> (rest \<noteq> [] \<and> b1 \<le> - 1)" by simp
  with rec show ?case by (rule Cons.IH)
qed

lemma pay_winners_length: "length (pay_winners ps ws x) = length ps"
  by (induction ws arbitrary: ps) simp_all

lemma pay_winners_chips:
  "distinct ws \<Longrightarrow> i < length ps \<Longrightarrow>
     chips (pay_winners ps ws x ! i) = chips (ps ! i) + (if i \<in> set ws then x else 0)"
proof (induction ws arbitrary: ps)
  case Nil
  then show ?case by simp
next
  case (Cons w ws)
  let ?ps1 = "ps[w := (ps ! w)\<lparr>chips := chips (ps ! w) + x\<rparr>]"
  have d: "distinct ws" "w \<notin> set ws" using Cons.prems(1) by simp_all
  have l: "i < length ?ps1" using Cons.prems(2) by simp
  have ih: "chips (pay_winners ?ps1 ws x ! i) = chips (?ps1 ! i) + (if i \<in> set ws then x else 0)"
    by (rule Cons.IH[OF d(1) l])
  show ?case
  proof (cases "i = w")
    case True
    then have "chips (?ps1 ! i) = chips (ps ! i) + x" using Cons.prems(2) by simp
    with ih True d(2) show ?thesis by simp
  next
    case False
    then have "chips (?ps1 ! i) = chips (ps ! i)" by simp
    with ih False show ?thesis by simp
  qed
qed

lemma sum_chips_update:
  "i < length ps \<Longrightarrow>
     sum_list (map chips (ps[i := (ps ! i)\<lparr>chips := chips (ps ! i) + x\<rparr>]))
       = sum_list (map chips ps) + x"
proof (induction ps arbitrary: i)
  case Nil
  then show ?case by simp
next
  case (Cons p ps)
  then show ?case by (cases i) simp_all
qed

lemma pay_winners_sum:
  "\<forall>w \<in> set ws. w < length ps \<Longrightarrow>
     sum_list (map chips (pay_winners ps ws x)) = sum_list (map chips ps) + int (length ws) * x"
proof (induction ws arbitrary: ps)
  case Nil
  then show ?case by simp
next
  case (Cons w ws)
  let ?ps1 = "ps[w := (ps ! w)\<lparr>chips := chips (ps ! w) + x\<rparr>]"
  have w: "w < length ps" and r: "\<forall>v \<in> set ws. v < length ?ps1" using Cons.prems by simp_all
  have "sum_list (map chips (pay_winners ?ps1 ws x))
          = sum_list (map chips ?ps1) + int (length ws) * x"
    by (rule Cons.IH[OF r])
  also have "sum_list (map chips ?ps1) = sum_list (map chips ps) + x"
    using w by (rule sum_chips_update)
  finally show ?case by (simp add: algebra_simps)
qed

lemma contender_positions_props:
  "distinct (contender_positions ps)" "\<forall>i \<in> set (contender_positions ps). i < length ps"
  by (simp_all add: contender_positions_def)

section \<open>Sending the state of the table\<close>

lemma cards_to_dicts_ok: "(\<exists>ds. cards_to_dicts cs = Inr ds) = (None \<notin> set cs)"
  by (induction cs rule: cards_to_dicts.induct) (auto split: sum.splits)

lemma to_dict_ok:
  "(\<exists>d. to_dict p b = Inr d) = (b \<or> \<not> is_bot p \<longrightarrow> None \<notin> set (hand p))"
  using cards_to_dicts_ok[of "hand p"]
  by (auto simp: to_dict_def split: sum.splits)

lemma players_to_dicts_ok:
  "(\<exists>ds. players_to_dicts ps b = Inr ds)
     = (\<forall>p \<in> set ps. (b \<or> \<not> in_hand p) \<or> \<not> is_bot p \<longrightarrow> None \<notin> set (hand p))"
proof (induction ps)
  case Nil
  then show ?case by simp
next
  case (Cons p ps)
  show ?case
    using Cons.IH to_dict_ok[of p "b \<or> \<not> in_hand p"]
    by (auto split: sum.splits)
qed

lemma get_state_ok:
  "(\<exists>d. get_state s b = Inr d)
     = ((\<forall>p \<in> set (players s). (b \<or> \<not> in_hand p) \<or> \<not> is_bot p \<longrightarrow> None \<notin> set (hand p))
        \<and> None \<notin> set (community_cards s))"
  using players_to_dicts_ok[of "players s" b] cards_to_dicts_ok[of "community_cards s"]
  by (auto simp: get_state_def split: sum.splits)

lemma emit_ok: "(emit_game_state s b = Inr ()) = (\<exists>d. get_state s b = Inr d)"
  by (auto simp: emit_game_state_def split: sum.splits)




section \<open>Resolving a bet or a raise\<close>






section \<open>Closing a round without action\<close>

lemma round_setup_ok:
  assumes seats: "stage_name = ''Pre-Flop'' \<or> players s0 \<noteq> []"
      and dk: "cards_to_deal \<le> 0 \<or> deck s0 \<noteq> None"
  shows "\<exists>s. round_setup stage_name cards_to_deal s0 = Inr s"
proof -
  let ?s = "s0\<lparr>stage := stage_name\<rparr>"
  let ?s1 = "?s\<lparr>current_bet := 0, last_raise := big_blind ?s,
                  players := map (\<lambda>p. p\<lparr>bet := 0\<rparr>) (players ?s)\<rparr>"
  have "\<exists>s2. (if stage_name \<noteq> ''Pre-Flop''
               then (case get_next_active_player ?s1 (dealer_pos ?s1) of
                       Inl e \<Rightarrow> Inl e
                     | Inr i \<Rightarrow> Inr (?s1\<lparr>current_player_index := i\<rparr>))
               else Inr ?s) = Inr s2 \<and> deck s2 = deck s0"
  proof (cases "stage_name = ''Pre-Flop''")
    case True
    then show ?thesis by simp
  next
    case False
    with seats have "players ?s1 \<noteq> []" by simp
    from gnap_total[OF this, of "dealer_pos ?s1"] obtain i where
      "get_next_active_player ?s1 (dealer_pos ?s1) = Inr i" by blast
    with False show ?thesis by simp
  qed
  then obtain s2 where s2: "(if stage_name \<noteq> ''Pre-Flop''
               then (case get_next_active_player ?s1 (dealer_pos ?s1) of
                       Inl e \<Rightarrow> Inl e
                     | Inr i \<Rightarrow> Inr (?s1\<lparr>current_player_index := i\<rparr>))
               else Inr ?s) = Inr s2" and d: "deck s2 = deck s0" by blast
  show ?thesis
  proof (cases "cards_to_deal > 0")
    case False
    then show ?thesis unfolding round_setup_def Let_def s2 by simp
  next
    case True
    with dk d obtain cards where c: "deck s2 = Some cards" by auto
    show ?thesis unfolding round_setup_def Let_def s2 using True c
      by (simp split: prod.splits)
  qed
qed

lemma round_setup_bets:
  assumes "round_setup stage_name cards_to_deal s0 = Inr s"
  shows "sum_list (map bet (players s))
           = (if stage_name = ''Pre-Flop'' then sum_list (map bet (players s0)) else 0)"
  using round_setup_players[OF assms] by (auto simp: comp_def)

lemma round_setup_in_hand:
  assumes "round_setup stage_name cards_to_deal s0 = Inr s"
  shows "map in_hand (players s) = map in_hand (players s0)"
  using round_setup_players[OF assms] by (auto simp: comp_def)

text \<open>
  C7, where the preparation of the round raises nothing: the round is the pre-flop or the
  table has a seat, and no card is to be dealt or the table has a deck. Let fewer than two
  seats be able to act, and let the current bet be 0 (a round after the pre-flop sets it
  to 0 itself). Then for any decisions the seats would take, and with no fuel at all, the
  round returns having solicited no action. The bets of the round are collected: on the
  pre-flop the pot grows by their sum, after it the round has cleared them and the pot
  stays; every bet is 0 afterwards. The flag is true exactly when at least two seats are
  in the hand.
\<close>

theorem round_without_action:
  assumes seats: "stage_name = ''Pre-Flop'' \<or> players s0 \<noteq> []"
      and dk: "cards_to_deal \<le> 0 \<or> deck s0 \<noteq> None"
      and few: "card {i. i < length (players s0) \<and> in_hand (players s0 ! i)
                       \<and> \<not> is_all_in (players s0 ! i)} < 2"
      and level: "stage_name = ''Pre-Flop'' \<longrightarrow> current_bet s0 = 0"
  shows "\<exists>s. round_setup stage_name cards_to_deal s0 = Inr s
           \<and> betting_round fuel acts stage_name cards_to_deal s0
               = Some (Inr (collect_bets s,
                            2 \<le> card {i. i < length (players s0) \<and> in_hand (players s0 ! i)}, 0))
           \<and> pot (collect_bets s)
               = pot s0 + (if stage_name = ''Pre-Flop'' then sum_list (map bet (players s0))
                           else 0)
           \<and> map bet (players (collect_bets s)) = replicate (length (players s0)) 0
           \<and> map in_hand (players (collect_bets s)) = map in_hand (players s0)"
proof -
  from round_setup_ok[OF seats dk] obtain s where
    rs: "round_setup stage_name cards_to_deal s0 = Inr s" by blast
  have opt: "players_with_option s0
               = card {i. i < length (players s0) \<and> in_hand (players s0 ! i)
                        \<and> \<not> is_all_in (players s0 ! i)}"
    unfolding players_with_option_def by (rule length_filter_conv_card)
  have lft: "players_left s0 = card {i. i < length (players s0) \<and> in_hand (players s0 ! i)}"
    unfolding players_left_def by (rule length_filter_conv_card)
  have few': "players_with_option s < 2"
    using few round_setup_counts(2)[OF rs] opt by simp
  have lvl: "current_bet s = 0" using round_setup_players[OF rs] level by auto
  have left: "players_left (collect_bets s) = players_left s0"
    using round_setup_counts(1)[OF rs] by (simp add: collect_bets_left)
  have flag: "(1 < players_left (collect_bets s))
                = (2 \<le> card {i. i < length (players s0) \<and> in_hand (players s0 ! i)})"
    unfolding left lft by auto
  have r: "betting_round fuel acts stage_name cards_to_deal s0
           = Some (Inr (collect_bets s,
                        2 \<le> card {i. i < length (players s0) \<and> in_hand (players s0 ! i)}, 0))"
    unfolding betting_round_def rs using few' lvl flag by (simp add: Let_def)
  have len: "length (players s) = length (players s0)"
    using round_setup_players[OF rs] by auto
  have p: "pot (collect_bets s)
               = pot s0 + (if stage_name = ''Pre-Flop'' then sum_list (map bet (players s0))
                           else 0)"
    unfolding collect_bets_eq using round_setup_pot[OF rs] round_setup_bets[OF rs] by simp
  have b: "map bet (players (collect_bets s)) = replicate (length (players s0)) 0"
    unfolding collect_bets_eq by (simp add: cleared_bets len)
  have ih: "map in_hand (players (collect_bets s)) = map in_hand (players s0)"
    unfolding collect_bets_eq using round_setup_in_hand[OF rs] by (simp add: comp_def)
  show ?thesis
    by (rule exI[of _ s]) (simp only: rs r p b ih simp_thms)
qed

text \<open>
  The claim of C7 fails on the table where one seat can act and no deck exists, and on the
  table with no seat: on both the current bet is 0 and fewer than two seats can act, and
  the flop raises instead of returning.
\<close>

theorem round_raises_without_deck_or_seat:
  "players_with_option all_in_table = 1 \<and> current_bet all_in_table = 0
   \<and> betting_round 5 (\<lambda>k. raise_to_5000) ''Flop'' 3 all_in_table = Some (Inl AttributeError)
   \<and> players_with_option Game = 0 \<and> current_bet Game = 0
   \<and> betting_round 5 (\<lambda>k. raise_to_5000) ''Flop'' 3 Game = Some (Inl ZeroDivisionError)"
  by (simp add: betting_round_def round_setup_def players_with_option_def all_in_table_def
        Game_def Player_def reset_for_hand_def get_next_active_player_def Let_def
        numeral_3_eq_3)

text \<open>
  On the flop with one seat able to act, one folded and one all-in, the round deals three
  cards, asks nobody and reports that two players remain. On the pre-flop table with bets
  of 20 and 10 standing and one player left, it asks nobody, collects 30 and reports
  that fewer than two remain.
\<close>

theorem round_without_action_witness:
  "betting_round 0 (\<lambda>k. raise_to_5000) ''Flop'' 3 flop_table
       = Some (Inr (flop_table_dealt, True, 0))
   \<and> pot flop_table = 1500 \<and> pot flop_table_dealt = 1500
   \<and> betting_round 0 (\<lambda>k. raise_to_5000) ''Pre-Flop'' 0 walk_table
       = Some (Inr (walk_table_collected, False, 0))
   \<and> pot walk_table = 0 \<and> map bet (players walk_table) = [20, 10]
   \<and> pot walk_table_collected = 30"
proof -
  have seats1: "''Flop'' = ''Pre-Flop'' \<or> players flop_table \<noteq> []"
    by (simp add: flop_table_def all_in_table_def)
  have dk1: "(3::int) \<le> 0 \<or> deck flop_table \<noteq> None"
    by (simp add: flop_table_def)
  have few1: "card {i. i < length (players flop_table) \<and> in_hand (players flop_table ! i)
                       \<and> \<not> is_all_in (players flop_table ! i)} < 2"
  proof -
    have "length (filter (\<lambda>p. in_hand p \<and> \<not> is_all_in p) (players flop_table)) < 2"
      by (simp add: flop_table_def all_in_table_def Game_def Player_def reset_for_hand_def)
    then show ?thesis unfolding length_filter_conv_card .
  qed
  have level1: "''Flop'' = ''Pre-Flop'' \<longrightarrow> current_bet flop_table = 0" by simp
  have left1: "card {i. i < length (players flop_table) \<and> in_hand (players flop_table ! i)} = 2"
  proof -
    have "length (filter (in_hand) (players flop_table)) = 2"
      by (simp add: flop_table_def all_in_table_def Game_def Player_def reset_for_hand_def)
    then show ?thesis unfolding length_filter_conv_card .
  qed
  have rs1: "round_setup ''Flop'' 3 flop_table = Inr flop_table_dealt"
    by (simp add: round_setup_def flop_table_def flop_table_dealt_def all_in_table_def Game_def
          Player_def reset_for_hand_def get_next_active_player_def deal_def Let_def
          numeral_3_eq_3)
  have same1: "collect_bets flop_table_dealt = flop_table_dealt"
    by (simp add: collect_bets_def flop_table_dealt_def flop_table_def all_in_table_def Game_def
          Player_def reset_for_hand_def)
  have seats2: "''Pre-Flop'' = ''Pre-Flop'' \<or> players walk_table \<noteq> []" by simp
  have dk2: "(0::int) \<le> 0 \<or> deck walk_table \<noteq> None" by simp
  have few2: "card {i. i < length (players walk_table) \<and> in_hand (players walk_table ! i)
                       \<and> \<not> is_all_in (players walk_table ! i)} < 2"
  proof -
    have "length (filter (\<lambda>p. in_hand p \<and> \<not> is_all_in p) (players walk_table)) < 2"
      by (simp add: walk_table_def Game_def Player_def reset_for_hand_def)
    then show ?thesis unfolding length_filter_conv_card .
  qed
  have level2: "''Pre-Flop'' = ''Pre-Flop'' \<longrightarrow> current_bet walk_table = 0"
    by (simp add: walk_table_def Game_def)
  have left2: "card {i. i < length (players walk_table) \<and> in_hand (players walk_table ! i)} = 1"
  proof -
    have "length (filter (in_hand) (players walk_table)) = 1"
      by (simp add: walk_table_def Game_def Player_def reset_for_hand_def)
    then show ?thesis unfolding length_filter_conv_card .
  qed
  have rs2: "round_setup ''Pre-Flop'' 0 walk_table = Inr walk_table"
    by (simp add: round_setup_def walk_table_def Game_def)
  have same2: "collect_bets walk_table = walk_table_collected"
    by (simp add: collect_bets_def walk_table_def walk_table_collected_def Game_def Player_def
          reset_for_hand_def)
  have v: "pot flop_table = 1500" "pot flop_table_dealt = 1500" "pot walk_table = 0"
    "map bet (players walk_table) = [20, 10]" "pot walk_table_collected = 30"
    by (simp_all add: flop_table_def flop_table_dealt_def all_in_table_def walk_table_def
          walk_table_collected_def Game_def Player_def reset_for_hand_def)
  from round_without_action [OF seats1 dk1 few1 level1, of 0 "\<lambda>k. raise_to_5000"]
  have a: "betting_round 0 (\<lambda>k. raise_to_5000) ''Flop'' 3 flop_table
             = Some (Inr (flop_table_dealt, True, 0))"
    unfolding rs1 left1 by (simp add: same1)
  from round_without_action [OF seats2 dk2 few2 level2, of 0 "\<lambda>k. raise_to_5000"]
  have b: "betting_round 0 (\<lambda>k. raise_to_5000) ''Pre-Flop'' 0 walk_table
             = Some (Inr (walk_table_collected, False, 0))"
    unfolding rs2 left2 by (simp add: same2)
  show ?thesis using a b v by simp
qed


section \<open>Paying the showdown\<close>

lemma store_result_hand:
  "map hand (ps[i := (ps ! i)\<lparr>hand_result := x\<rparr>]) = map hand ps"
proof (cases "i < length ps")
  case True
  have "map hand (ps[i := (ps ! i)\<lparr>hand_result := x\<rparr>]) = (map hand ps)[i := map hand ps ! i]"
    using True by (simp add: map_update)
  then show ?thesis by simp
next
  case False
  then have "length ps \<le> i" by simp
  then show ?thesis by (simp add: list_update_beyond)
qed

lemma showdown_loop_hands:
  "showdown_loop cc rest ps winners best = Inr (ps', winners') \<Longrightarrow>
     map hand ps' = map hand ps"
proof (induction rest arbitrary: ps winners best)
  case Nil
  then show ?case by simp
next
  case (Cons i rest)
  from showdown_loop_step[OF Cons.prems] obtain r cards hname w1 b1 where
    ev: "evaluate_hand (hand (ps ! i) @ cc) = Inr (r, cards, hname)"
    and w1: "w1 = [i] \<or> (winners \<noteq> [] \<and> (w1 = winners @ [i] \<or> w1 = winners))
              \<or> (w1 = winners \<and> r < best)"
    and rec: "showdown_loop cc rest
              (ps[i := (ps ! i)\<lparr>hand_result := Some (r, cards, hname)\<rparr>]) w1 b1
                = Inr (ps', winners')"
    by blast
  have "map hand ps' = map hand (ps[i := (ps ! i)\<lparr>hand_result := Some (r, cards, hname)\<rparr>])"
    using rec by (rule Cons.IH)
  then show ?case by (simp only: store_result_hand)
qed

lemma pay_one_hand:
  "map hand (ps[w := (ps ! w)\<lparr>chips := c\<rparr>]) = map hand ps"
proof (cases "w < length ps")
  case True
  have "map hand (ps[w := (ps ! w)\<lparr>chips := c\<rparr>]) = (map hand ps)[w := map hand ps ! w]"
    using True by (simp add: map_update)
  then show ?thesis by simp
next
  case False
  then have "length ps \<le> w" by simp
  then show ?thesis by (simp add: list_update_beyond)
qed

lemma pay_winners_hands: "map hand (pay_winners ps ws x) = map hand ps"
proof (induction ws arbitrary: ps)
  case Nil
  then show ?case by simp
next
  case (Cons w ws)
  have "map hand (pay_winners (ps[w := (ps ! w)\<lparr>chips := chips (ps ! w) + x\<rparr>]) ws x)
          = map hand (ps[w := (ps ! w)\<lparr>chips := chips (ps ! w) + x\<rparr>])"
    by (rule Cons.IH)
  then show ?case by (simp only: pay_winners.simps pay_one_hand)
qed

lemma no_missing_card:
  "(\<forall>p \<in> set ps. None \<notin> set (hand p)) = (\<forall>h \<in> set (map hand ps). None \<notin> set h)"
  by auto

text \<open>
  C5, where the table can be sent with every card shown. Take a showdown with at least
  two contenders whose loop ends with the list \<open>winners\<close>. That list is not empty and
  names contenders, each once. The showdown returns with the pot at 0; every winner's
  chips have grown by the pot divided by the number of winners, rounded down, and nobody
  else's chips have changed; so the chips on the table have grown by the pot less its
  remainder by the number of winners, which goes to nobody.
\<close>

theorem showdown_splits_by_floor:
  assumes snd: "get_state s True = Inr payload"
      and two: "2 \<le> length (contender_positions (players s))"
      and loop: "showdown_loop (community_cards s) (contender_positions (players s)) (players s)
                   [] (- 1) = Inr (ps, winners)"
  shows "winners \<noteq> [] \<and> distinct winners
       \<and> set winners \<subseteq> set (contender_positions (players s))
       \<and> (\<exists>s'. showdown s = Inr s' \<and> pot s' = 0
             \<and> length (players s') = length (players s)
             \<and> (\<forall>i < length (players s).
                   chips (players s' ! i) =
                     chips (players s ! i)
                     + (if i \<in> set winners then pot s div int (length winners) else 0))
             \<and> sum_list (map chips (players s'))
                 = sum_list (map chips (players s)) + pot s - pot s mod int (length winners))"
proof -
  let ?c = "contender_positions (players s)"
  let ?x = "pot s div int (length winners)"
  have cne: "?c \<noteq> []" using two by auto
  have wne: "winners \<noteq> []"
    using showdown_loop_nonempty[OF loop] cne by simp
  have wd: "distinct winners" "set winners \<subseteq> set ?c"
    using showdown_loop_winners[OF loop] contender_positions_props(1)[of "players s"] by auto
  have ch: "map chips ps = map chips (players s)" using loop by (rule showdown_loop_chips)
  then have len: "length ps = length (players s)" by (metis length_map)
  have nth: "chips (ps ! i) = chips (players s ! i)" if "i < length (players s)" for i
    using ch that len by (metis nth_map)
  have rng: "\<forall>w \<in> set winners. w < length ps"
    using wd(2) contender_positions_props(2)[of "players s"] len by auto
  define s' where "s' = s\<lparr>players := pay_winners ps winners ?x, pot := 0\<rparr>"
  have first: "emit_game_state s True = Inr ()" using snd by (simp add: emit_game_state_def)
  have "\<exists>d. get_state s True = Inr d" using snd by blast
  then have whole: "\<forall>p \<in> set (players s). None \<notin> set (hand p)"
    and board: "None \<notin> set (community_cards s)"
    unfolding get_state_ok by simp_all
  have "map hand (players s') = map hand (players s)"
    using showdown_loop_hands[OF loop] by (simp add: s'_def pay_winners_hands)
  then have "\<forall>p \<in> set (players s'). None \<notin> set (hand p)"
    using whole unfolding no_missing_card by simp
  moreover have "community_cards s' = community_cards s" by (simp add: s'_def)
  ultimately have "\<exists>d. get_state s' False = Inr d"
    unfolding get_state_ok using board by simp
  then have last: "emit_game_state s' False = Inr ()" by (simp add: emit_ok)
  have sd: "showdown s = Inr s'"
    unfolding showdown_def first using two cne wne last
    by (simp add: loop Let_def s'_def[symmetric])
  have each: "chips (players s' ! i) = chips (players s ! i) + (if i \<in> set winners then ?x else 0)"
    if "i < length (players s)" for i
    using that pay_winners_chips[OF wd(1), of i ps ?x] nth[OF that] len by (simp add: s'_def)
  have "int (length winners) * ?x = pot s - pot s mod int (length winners)"
    by (simp add: minus_mod_eq_mult_div)
  then have total: "sum_list (map chips (players s'))
                 = sum_list (map chips (players s)) + pot s - pot s mod int (length winners)"
    using pay_winners_sum[OF rng, of ?x] ch by (simp add: s'_def)
  show ?thesis
    using wne wd sd each total by (auto simp: s'_def pay_winners_length len)
qed

text \<open>
  Both players of the split table make the same high-card hand from the board.
\<close>

lemma split_loop:
  "showdown_loop (community_cards split_table) (contender_positions (players split_table))
     (players split_table) [] (- 1) = Inr (split_evaluated, [0, 1])"
  by code_simp

text \<open>
  The claim of C5 fails where a seat that has folded holds a missing card. The two
  contenders tie for a pot of 101, but the showdown first sends the table with every card
  shown, which raises, and nobody is paid.
\<close>

theorem showdown_raises_on_a_missing_card:
  "length (contender_positions (players torn_table)) = 2
   \<and> map_sum id snd
       (showdown_loop (community_cards torn_table) (contender_positions (players torn_table))
          (players torn_table) [] (- 1)) = Inr [0, 1]
   \<and> pot torn_table = 101
   \<and> showdown torn_table = Inl AttributeError"
  by code_simp

text \<open>
  A pot of 101 between the two co-winners pays each of them 50: 2000 chips become 2100.
\<close>

theorem showdown_splits_by_floor_witness:
  "get_state split_table True = Inr (projr (get_state split_table True))
   \<and> 2 \<le> length (contender_positions (players split_table))
   \<and> showdown_loop (community_cards split_table) (contender_positions (players split_table))
        (players split_table) [] (- 1) = Inr (split_evaluated, [0, 1])
   \<and> pot split_table = 101
   \<and> map chips (players split_table) = [1000, 1000]
   \<and> (\<exists>s'. showdown split_table = Inr s' \<and> pot s' = 0
          \<and> chips (players s' ! 0) = 1050 \<and> chips (players s' ! 1) = 1050
          \<and> sum_list (map chips (players s')) = 2100)"
proof -
  have e: "get_state split_table True = Inr (projr (get_state split_table True))"
    by (simp add: get_state_def split_table_def Game_def Player_def reset_for_hand_def
        to_dict_def card_to_dict_def Card_def)
  have two: "2 \<le> length (contender_positions (players split_table))"
    by (simp add: contender_positions_def split_table_def Game_def Player_def reset_for_hand_def
          upt_rec)
  have v: "pot split_table = 101" "map chips (players split_table) = [1000, 1000]"
    "length (players split_table) = 2" "chips (players split_table ! 0) = 1000"
    "chips (players split_table ! Suc 0) = 1000"
    by (simp_all add: split_table_def Game_def Player_def reset_for_hand_def)
  from showdown_splits_by_floor [OF e two split_loop] obtain s' where
    sd: "showdown split_table = Inr s'" and p: "pot s' = 0"
    and each: "\<forall>i < length (players split_table).
                 chips (players s' ! i) =
                   chips (players split_table ! i)
                   + (if i \<in> set [0, 1] then pot split_table div int (length [0::nat, 1]) else 0)"
    and total: "sum_list (map chips (players s'))
                 = sum_list (map chips (players split_table)) + pot split_table
                   - pot split_table mod int (length [0::nat, 1])"
    by blast
  have c0: "chips (players s' ! 0) = 1050" using each v by simp
  have c1: "chips (players s' ! 1) = 1050" using each v by simp
  have t: "sum_list (map chips (players s')) = 2100" using total v by simp
  show ?thesis
    using e two split_loop v(1,2) sd p c0 c1 t by blast
qed

end
